theory Spec2Isabelle
  imports Main
begin

section \<open>Data model\<close>

text \<open>
  The program is \<^verbatim>\<open>src/main.py\<close>: a command-line tool over a Jira client. Issues arrive
  as JSON dictionaries; the model keeps the entries the program reads. A user reference is
  the dictionary \<^verbatim>\<open>{"accountId": ...}\<close>; \<^verbatim>\<open>fields.get("assignee")\<close> and
  \<^verbatim>\<open>fields.get("reporter")\<close> may be \<^verbatim>\<open>None\<close>, which is the value \<open>None\<close> of an option.
  The entry \<^verbatim>\<open>issue["fields"]\<close> is the record field \<open>issue_fields\<close> (the record package
  keeps the name \<open>fields\<close> for itself).
\<close>

record user_ref =
  accountId :: string

record user = user_ref +
  emailAddress :: string

record field_dict =
  creator :: user_ref
  assignee :: "user_ref option"
  reporter :: "user_ref option"

record issue =
  key :: string
  issue_fields :: field_dict

text \<open>
  The dictionary \<^verbatim>\<open>updates\<close> of \<^verbatim>\<open>process_issue\<close> maps a field name to a user reference.
  Its keys are written at most once each and in a fixed order, so an association list in
  insertion order is the dictionary. The request body is \<^verbatim>\<open>{'fields': updates}\<close>.
\<close>

record payload =
  payload_fields :: "(string \<times> user_ref) list"

text \<open>An exception raised by a call of the client (\<^verbatim>\<open>except Exception as e\<close>).\<close>

datatype error = ApiError string

section \<open>The remote client and the observable behaviour\<close>

text \<open>
  The client \<^verbatim>\<open>atlassian.jira.Jira\<close> is an external library. It is a parameter of the
  model: a record of the five calls the program makes, each a function of the remote state
  \<open>'w\<close> that answers with a result or an exception and the next remote state.
\<close>

record 'w jira =
  api_jql :: "string \<Rightarrow> nat \<Rightarrow> nat \<Rightarrow> 'w \<Rightarrow> (error + issue list) \<times> 'w"
  api_myself :: "'w \<Rightarrow> (error + user) \<times> 'w"
  api_user :: "string \<Rightarrow> 'w \<Rightarrow> (error + user) \<times> 'w"
  api_update_issue :: "string \<Rightarrow> payload \<Rightarrow> 'w \<Rightarrow> error option \<times> 'w"
  api_issue_add_watcher :: "string \<Rightarrow> string \<Rightarrow> 'w \<Rightarrow> error option \<times> 'w"

text \<open>
  Log records that report a decision or a result. The progress messages at level INFO and
  DEBUG (\<^verbatim>\<open>"processing issue ..."\<close>, \<^verbatim>\<open>"fetching issues from ..."\<close> and the like) only
  narrate and are left out. A record keeps the values formatted into the message.
\<close>

datatype log_entry =
    SourceNotSelf string string
  | DryRunUpdate string payload
  | UpdateFailed string error
  | UpdatedCount nat
  | DryRunAddWatcher string string
  | AddWatcherFailed string error

text \<open>
  What a run does, in order: every call of the client with its arguments and its answer,
  every issue the generator yields, every log record.
\<close>

datatype event =
    JqlCall string nat nat "error + issue list"
  | Yield issue
  | MyselfCall "error + user"
  | UserCall string "error + user"
  | UpdateIssueCall string payload "error option"
  | AddWatcherCall string string "error option"
  | Log log_entry

text \<open>
  The state of a run: the remote state and the events so far. The handlers extend it with
  their local variables (\<^verbatim>\<open>issues_updated\<close>, \<^verbatim>\<open>target_user_watching_keys\<close>).
\<close>

record 'w env =
  world :: 'w
  trace :: "event list"

record 'w counting = "'w env" +
  issues_updated :: nat

record 'w watching = "'w counting" +
  target_user_watching_keys :: "string set"

definition emit :: "event \<Rightarrow> ('w, 'z) env_scheme \<Rightarrow> ('w, 'z) env_scheme" where
  "emit e st = st\<lparr>trace := trace st @ [e]\<rparr>"

text \<open>
  How a function ends: it returns, an exception leaves it, or the model's bound on the
  number of loop iterations is used up (the source loops \<^verbatim>\<open>while True\<close>).
\<close>

datatype 'a outcome = Returned 'a | Raised error | OutOfFuel

text \<open>The value a handler returns: Python's \<^verbatim>\<open>None\<close> or an integer.\<close>

datatype pyvalue = PyNone | PyInt nat

section \<open>Query builder\<close>

text \<open>
  \<^verbatim>\<open>get_query\<close>. \<^verbatim>\<open>seed_query or ''\<close> is the empty string for \<^verbatim>\<open>None\<close> (and for the empty
  string itself); \<^verbatim>\<open>if cutoff_date:\<close> is false for \<^verbatim>\<open>None\<close> and for the empty string.
\<close>

definition get_query :: "string option \<Rightarrow> string option \<Rightarrow> string" where
  \<open>get_query seed_query cutoff_date =
     (let query = (case seed_query of None \<Rightarrow> '''' | Some s \<Rightarrow> s) in
      if cutoff_date \<noteq> None \<and> cutoff_date \<noteq> Some ''''
      then query @ '' Updated >= "'' @ the cutoff_date @ ''" ORDER BY Updated ASC''
      else query @ '' ORDER BY Updated ASC'')\<close>

section \<open>Paginated iterator\<close>

definition limit :: nat where
  "limit = 100"

text \<open>
  \<^verbatim>\<open>iterate_jql_results\<close> is a generator; the model runs it together with its consumer, the
  body of the \<^verbatim>\<open>for\<close> loop that reads it, which is called on every issue as it is yielded.
  A fetch that raises ends the loop with the exception. The first argument bounds the
  number of fetches; \<open>start\<close> is the loop variable of the source, \<open>0\<close> at the call.
\<close>

fun iterate_jql_results ::
  "nat \<Rightarrow> 'w jira \<Rightarrow> string \<Rightarrow> (issue \<Rightarrow> ('w, 'z) env_scheme \<Rightarrow> ('w, 'z) env_scheme) \<Rightarrow>
   nat \<Rightarrow> ('w, 'z) env_scheme \<Rightarrow> unit outcome \<times> ('w, 'z) env_scheme" where
  "iterate_jql_results 0 api query body start st = (OutOfFuel, st)"
| "iterate_jql_results (Suc n) api query body start st =
     (case api_jql api query start limit (world st) of
        (Inl e, w) \<Rightarrow> (Raised e, emit (JqlCall query start limit (Inl e)) (st\<lparr>world := w\<rparr>))
      | (Inr issues, w) \<Rightarrow>
          (let st1 = emit (JqlCall query start limit (Inr issues)) (st\<lparr>world := w\<rparr>);
               st2 = fold (\<lambda>issue s. body issue (emit (Yield issue) s)) issues st1
           in if length issues < limit then (Returned (), st2)
              else iterate_jql_results n api query body (start + length issues) st2))"

section \<open>Ownership remap handler\<close>

text \<open>
  The closures \<^verbatim>\<open>update_issue\<close> and \<^verbatim>\<open>process_issue\<close> of \<^verbatim>\<open>remap_user\<close>. What they
  capture (\<^verbatim>\<open>jira_api\<close>, \<^verbatim>\<open>apply_changes\<close>, the two user ids) is passed as arguments;
  the \<^verbatim>\<open>nonlocal\<close> counter is a field of the state. Both handlers name a closure
  \<^verbatim>\<open>process_issue\<close>, so the names carry the handler's name in front.
\<close>

definition remap_update_issue ::
  "'w jira \<Rightarrow> bool \<Rightarrow> issue \<Rightarrow> payload \<Rightarrow> ('w, 'z) counting_scheme \<Rightarrow> ('w, 'z) counting_scheme" where
  "remap_update_issue api apply_changes issue updates st =
     (if \<not> apply_changes then emit (Log (DryRunUpdate (key issue) updates)) st
      else
        (case api_update_issue api (key issue) updates (world st) of
           (None, w) \<Rightarrow>
             (emit (UpdateIssueCall (key issue) updates None) (st\<lparr>world := w\<rparr>))
               \<lparr>issues_updated := issues_updated st + 1\<rparr>
         | (Some e, w) \<Rightarrow>
             emit (Log (UpdateFailed (key issue) e))
               (emit (UpdateIssueCall (key issue) updates (Some e)) (st\<lparr>world := w\<rparr>))))"

definition remap_process_issue ::
  "'w jira \<Rightarrow> bool \<Rightarrow> string \<Rightarrow> string \<Rightarrow> issue \<Rightarrow> ('w, 'z) counting_scheme \<Rightarrow>
   ('w, 'z) counting_scheme" where
  "remap_process_issue api apply_changes source_user_id target_user_id issue st =
     (let fields = issue_fields issue;
          updates0 = [];
          updates1 =
            (if accountId (creator fields) = source_user_id
             then updates0 @ [(''creator'', \<lparr>accountId = target_user_id\<rparr>)] else updates0);
          updates2 =
            (case assignee fields of
               Some a \<Rightarrow>
                 if accountId a = source_user_id
                 then updates1 @ [(''assignee'', \<lparr>accountId = target_user_id\<rparr>)] else updates1
             | None \<Rightarrow> updates1);
          updates3 =
            (case reporter fields of
               Some r \<Rightarrow>
                 if accountId r = source_user_id
                 then updates2 @ [(''reporter'', \<lparr>accountId = target_user_id\<rparr>)] else updates2
             | None \<Rightarrow> updates2)
      in if updates3 \<noteq> []
         then remap_update_issue api apply_changes issue \<lparr>payload_fields = updates3\<rparr> st
         else st)"

text \<open>
  \<^verbatim>\<open>remap_user\<close> has no \<^verbatim>\<open>return\<close> statement: when the scan ends it logs the counter and
  returns \<^verbatim>\<open>None\<close>. The calls \<^verbatim>\<open>myself()\<close> and \<^verbatim>\<open>user(...)\<close> come first; an exception of
  theirs or of a fetch leaves the handler.
\<close>

definition remap_user ::
  "nat \<Rightarrow> 'w jira \<Rightarrow> string \<Rightarrow> string \<Rightarrow> string option \<Rightarrow> bool \<Rightarrow> 'w \<Rightarrow>
   pyvalue outcome \<times> 'w counting" where
  "remap_user n api source_user_id target_user_id seed_query apply_changes w0 =
     (let st0 = \<lparr>world = w0, trace = [], issues_updated = 0\<rparr> in
      case api_myself api (world st0) of
        (Inl e, w) \<Rightarrow> (Raised e, emit (MyselfCall (Inl e)) (st0\<lparr>world := w\<rparr>))
      | (Inr myself, w) \<Rightarrow>
          (let st1 = emit (MyselfCall (Inr myself)) (st0\<lparr>world := w\<rparr>);
               st2 = (if source_user_id \<noteq> accountId myself
                      then emit (Log (SourceNotSelf source_user_id (accountId myself))) st1
                      else st1)
           in case api_user api target_user_id (world st2) of
                (Inl e, w') \<Rightarrow> (Raised e, emit (UserCall target_user_id (Inl e)) (st2\<lparr>world := w'\<rparr>))
              | (Inr target_user, w') \<Rightarrow>
                  (let st3 = emit (UserCall target_user_id (Inr target_user)) (st2\<lparr>world := w'\<rparr>);
                       query = get_query seed_query None;
                       st4 = st3\<lparr>issues_updated := 0\<rparr>
                   in case iterate_jql_results n api query
                             (remap_process_issue api apply_changes source_user_id target_user_id)
                             0 st4 of
                        (Returned u, st5) \<Rightarrow>
                          (Returned PyNone, emit (Log (UpdatedCount (issues_updated st5))) st5)
                      | (Raised e, st5) \<Rightarrow> (Raised e, st5)
                      | (OutOfFuel, st5) \<Rightarrow> (OutOfFuel, st5))))"

section \<open>Watcher copy handler\<close>

definition watching_query :: "string \<Rightarrow> string" where
  \<open>watching_query user_id = ''watcher = "'' @ user_id @ ''"''\<close>

text \<open>The closure \<^verbatim>\<open>process_issue\<close> of \<^verbatim>\<open>copy_watchers\<close>.\<close>

definition copy_process_issue ::
  "'w jira \<Rightarrow> bool \<Rightarrow> string \<Rightarrow> issue \<Rightarrow> ('w, 'z) counting_scheme \<Rightarrow> ('w, 'z) counting_scheme" where
  "copy_process_issue api apply_changes target_user_id issue st =
     (if \<not> apply_changes then emit (Log (DryRunAddWatcher target_user_id (key issue))) st
      else
        (case api_issue_add_watcher api (key issue) target_user_id (world st) of
           (None, w) \<Rightarrow>
             (emit (AddWatcherCall (key issue) target_user_id None) (st\<lparr>world := w\<rparr>))
               \<lparr>issues_updated := issues_updated st + 1\<rparr>
         | (Some e, w) \<Rightarrow>
             emit (Log (AddWatcherFailed (key issue) e))
               (emit (AddWatcherCall (key issue) target_user_id (Some e)) (st\<lparr>world := w\<rparr>))))"

text \<open>The bodies of the two \<^verbatim>\<open>for\<close> loops of \<^verbatim>\<open>copy_watchers\<close>.\<close>

definition snapshot_step :: "issue \<Rightarrow> ('w, 'z) watching_scheme \<Rightarrow> ('w, 'z) watching_scheme" where
  "snapshot_step issue st =
     st\<lparr>target_user_watching_keys := insert (key issue) (target_user_watching_keys st)\<rparr>"

definition copy_step ::
  "'w jira \<Rightarrow> bool \<Rightarrow> string \<Rightarrow> issue \<Rightarrow> ('w, 'z) watching_scheme \<Rightarrow> ('w, 'z) watching_scheme" where
  "copy_step api apply_changes target_user_id issue st =
     (if key issue \<in> target_user_watching_keys st then st
      else copy_process_issue api apply_changes target_user_id issue st)"

definition copy_watchers ::
  "nat \<Rightarrow> 'w jira \<Rightarrow> string \<Rightarrow> string \<Rightarrow> bool \<Rightarrow> 'w \<Rightarrow> pyvalue outcome \<times> 'w watching" where
  "copy_watchers n api source_user_id target_user_id apply_changes w0 =
     (let st0 = \<lparr>world = w0, trace = [], issues_updated = 0, target_user_watching_keys = {}\<rparr> in
      case api_user api source_user_id (world st0) of
        (Inl e, w) \<Rightarrow> (Raised e, emit (UserCall source_user_id (Inl e)) (st0\<lparr>world := w\<rparr>))
      | (Inr source_user, w) \<Rightarrow>
          (let st1 = emit (UserCall source_user_id (Inr source_user)) (st0\<lparr>world := w\<rparr>) in
           case api_user api target_user_id (world st1) of
             (Inl e, w') \<Rightarrow> (Raised e, emit (UserCall target_user_id (Inl e)) (st1\<lparr>world := w'\<rparr>))
           | (Inr target_user, w') \<Rightarrow>
               (let st2 = emit (UserCall target_user_id (Inr target_user)) (st1\<lparr>world := w'\<rparr>);
                    source_user_watching_query = watching_query source_user_id;
                    target_user_watching_query = watching_query target_user_id;
                    st3 = st2\<lparr>issues_updated := 0, target_user_watching_keys := {}\<rparr>
                in case iterate_jql_results n api target_user_watching_query snapshot_step 0 st3 of
                     (Raised e, st4) \<Rightarrow> (Raised e, st4)
                   | (OutOfFuel, st4) \<Rightarrow> (OutOfFuel, st4)
                   | (Returned u, st4) \<Rightarrow>
                       (case iterate_jql_results n api source_user_watching_query
                               (copy_step api apply_changes target_user_id) 0 st4 of
                          (Returned u', st5) \<Rightarrow> (Returned PyNone, st5)
                        | (Raised e, st5) \<Rightarrow> (Raised e, st5)
                        | (OutOfFuel, st5) \<Rightarrow> (OutOfFuel, st5)))))"

section \<open>Reading a trace\<close>

text \<open>The fetches of a trace: the query, start offset and limit of each, and the answer.\<close>

fun fetched :: "event list \<Rightarrow> ((string \<times> nat \<times> nat) \<times> (error + issue list)) list" where
  "fetched [] = []"
| "fetched (JqlCall q s l r # es) = ((q, s, l), r) # fetched es"
| "fetched (e # es) = fetched es"

text \<open>The issues a trace yields, in order.\<close>

fun yielded :: "event list \<Rightarrow> issue list" where
  "yielded [] = []"
| "yielded (Yield i # es) = i # yielded es"
| "yielded (e # es) = yielded es"

text \<open>The update requests a trace sends: issue key, request body and answer.\<close>

fun update_calls :: "event list \<Rightarrow> (string \<times> payload \<times> error option) list" where
  "update_calls [] = []"
| "update_calls (UpdateIssueCall k p r # es) = (k, p, r) # update_calls es"
| "update_calls (e # es) = update_calls es"

text \<open>The add-watcher requests a trace sends: issue key, account id and answer.\<close>

fun add_watcher_calls :: "event list \<Rightarrow> (string \<times> string \<times> error option) list" where
  "add_watcher_calls [] = []"
| "add_watcher_calls (AddWatcherCall k u r # es) = (k, u, r) # add_watcher_calls es"
| "add_watcher_calls (e # es) = add_watcher_calls es"

text \<open>The log records of a trace.\<close>

fun logged :: "event list \<Rightarrow> log_entry list" where
  "logged [] = []"
| "logged (Log l # es) = l # logged es"
| "logged (e # es) = logged es"

text \<open>The page of an answer (none when the fetch raised).\<close>

definition page_of :: "error + issue list \<Rightarrow> issue list" where
  "page_of r = (case r of Inl e \<Rightarrow> [] | Inr p \<Rightarrow> p)"

text \<open>The start offsets of successive fetches: each advances by the length of the page before.\<close>

fun starts :: "nat \<Rightarrow> issue list list \<Rightarrow> nat list" where
  "starts s [] = []"
| "starts s (p # ps) = s # starts (s + length p) ps"

text \<open>A mutation call that was answered without an exception.\<close>

definition succeeded :: "'a \<times> 'b \<times> error option \<Rightarrow> bool" where
  "succeeded c = (snd (snd c) = None)"

text \<open>The mutation calls that raised: the issue key and the exception of each.\<close>

fun failed_calls :: "('a \<times> 'b \<times> error option) list \<Rightarrow> ('a \<times> error) list" where
  "failed_calls [] = []"
| "failed_calls ((k, p, None) # cs) = failed_calls cs"
| "failed_calls ((k, p, Some e) # cs) = (k, e) # failed_calls cs"

text \<open>The failures the log records, for updates and for added watchers.\<close>

fun update_failures :: "log_entry list \<Rightarrow> (string \<times> error) list" where
  "update_failures [] = []"
| "update_failures (UpdateFailed k e # ls) = (k, e) # update_failures ls"
| "update_failures (l # ls) = update_failures ls"

fun add_watcher_failures :: "log_entry list \<Rightarrow> (string \<times> error) list" where
  "add_watcher_failures [] = []"
| "add_watcher_failures (AddWatcherFailed k e # ls) = (k, e) # add_watcher_failures ls"
| "add_watcher_failures (l # ls) = add_watcher_failures ls"

text \<open>The counts the log reports (\<^verbatim>\<open>"updated N issues"\<close>).\<close>

fun reported_counts :: "log_entry list \<Rightarrow> nat list" where
  "reported_counts [] = []"
| "reported_counts (UpdatedCount c # ls) = c # reported_counts ls"
| "reported_counts (l # ls) = reported_counts ls"

text \<open>The exception of an event, when the event is a read call that raised.\<close>

fun raised_by :: "event \<Rightarrow> error option" where
  "raised_by (JqlCall q s l (Inl e)) = Some e"
| "raised_by (MyselfCall (Inl e)) = Some e"
| "raised_by (UserCall a (Inl e)) = Some e"
| "raised_by ev = None"

section \<open>A reference tracker\<close>

text \<open>
  Modelled from the spec: the remote issue tracker behind the client (the spec's external
  interfaces: paginated \<^verbatim>\<open>search\<close>, \<^verbatim>\<open>get_current_user\<close>, \<^verbatim>\<open>get_user\<close>, \<^verbatim>\<open>update_issue\<close>,
  \<^verbatim>\<open>add_watcher\<close>). Its code is not part of the repository. It holds the issues in a fixed
  order, each with the account ids of its watchers, and the keys of the issues whose
  mutations it rejects. A search answers with the slice \<open>[start, start + limit)\<close> of the
  matching issues; it understands the watcher filter of \<^verbatim>\<open>copy_watchers\<close> and the filter
  with no seed, which matches every issue. An update writes the fields of the request; an
  added watcher is added once.
\<close>

record tracker =
  tracker_me :: user
  tracker_users :: "user list"
  tracker_issues :: "(issue \<times> string list) list"
  tracker_rejects :: "string list"

definition set_field :: "string \<times> user_ref \<Rightarrow> issue \<Rightarrow> issue" where
  "set_field f i =
     (if fst f = ''creator'' then i\<lparr>issue_fields := (issue_fields i)\<lparr>creator := snd f\<rparr>\<rparr>
      else if fst f = ''assignee'' then i\<lparr>issue_fields := (issue_fields i)\<lparr>assignee := Some (snd f)\<rparr>\<rparr>
      else if fst f = ''reporter'' then i\<lparr>issue_fields := (issue_fields i)\<lparr>reporter := Some (snd f)\<rparr>\<rparr>
      else i)"

definition apply_payload :: "payload \<Rightarrow> issue \<Rightarrow> issue" where
  "apply_payload p i = fold set_field (payload_fields p) i"

definition tracker_matches :: "string \<Rightarrow> issue \<times> string list \<Rightarrow> bool" where
  "tracker_matches q iw = (q = get_query None None \<or> (\<exists>u \<in> set (snd iw). q = watching_query u))"

definition tracker_search :: "string \<Rightarrow> tracker \<Rightarrow> issue list" where
  "tracker_search q t = map fst (filter (tracker_matches q) (tracker_issues t))"

definition tracker_jql :: "string \<Rightarrow> nat \<Rightarrow> nat \<Rightarrow> tracker \<Rightarrow> (error + issue list) \<times> tracker" where
  "tracker_jql q start lim t = (Inr (take lim (drop start (tracker_search q t))), t)"

definition tracker_myself :: "tracker \<Rightarrow> (error + user) \<times> tracker" where
  "tracker_myself t = (Inr (tracker_me t), t)"

definition tracker_user :: "string \<Rightarrow> tracker \<Rightarrow> (error + user) \<times> tracker" where
  "tracker_user account_id t =
     (case find (\<lambda>u. accountId u = account_id) (tracker_users t) of
        None \<Rightarrow> (Inl (ApiError ''user not found''), t)
      | Some u \<Rightarrow> (Inr u, t))"

definition tracker_update_issue :: "string \<Rightarrow> payload \<Rightarrow> tracker \<Rightarrow> error option \<times> tracker" where
  "tracker_update_issue k p t =
     (if k \<in> set (tracker_rejects t) then (Some (ApiError ''rejected''), t)
      else (None, t\<lparr>tracker_issues :=
                      map (\<lambda>iw. if key (fst iw) = k then (apply_payload p (fst iw), snd iw) else iw)
                        (tracker_issues t)\<rparr>))"

definition tracker_issue_add_watcher :: "string \<Rightarrow> string \<Rightarrow> tracker \<Rightarrow> error option \<times> tracker" where
  "tracker_issue_add_watcher k u t =
     (if k \<in> set (tracker_rejects t) then (Some (ApiError ''rejected''), t)
      else (None, t\<lparr>tracker_issues :=
                      map (\<lambda>iw. if key (fst iw) = k then (fst iw, List.insert u (snd iw)) else iw)
                        (tracker_issues t)\<rparr>))"

definition tracker_api :: "tracker jira" where
  "tracker_api =
     \<lparr>api_jql = tracker_jql, api_myself = tracker_myself, api_user = tracker_user,
      api_update_issue = tracker_update_issue, api_issue_add_watcher = tracker_issue_add_watcher\<rparr>"

text \<open>The keys of the issues an account watches.\<close>

definition watched_keys :: "string \<Rightarrow> tracker \<Rightarrow> string set" where
  "watched_keys u t = set (map (key \<circ> fst) (filter (\<lambda>iw. u \<in> set (snd iw)) (tracker_issues t)))"

text \<open>
  The add-watcher calls of a trace, replayed on the tracker in order: the state they leave
  behind, and whether each of them is for an issue that the account does not watch at the
  moment of the call. A call for an issue the account watches already changes nothing.
\<close>

fun after_adds :: "(string \<times> string \<times> error option) list \<Rightarrow> tracker \<Rightarrow> tracker" where
  "after_adds [] t = t"
| "after_adds ((k, u, r) # cs) t = after_adds cs (snd (tracker_issue_add_watcher k u t))"

fun fresh_adds :: "(string \<times> string \<times> error option) list \<Rightarrow> tracker \<Rightarrow> bool" where
  "fresh_adds [] t = True"
| "fresh_adds ((k, u, r) # cs) t =
     (k \<notin> watched_keys u t \<and> fresh_adds cs (snd (tracker_issue_add_watcher k u t)))"

text \<open>
  The test \<^verbatim>\<open>len(response["issues"]) < limit\<close> of the iterator, on an answer: a full page
  lets the loop go on, a short page ends it. An answer that is an exception is neither.
\<close>

definition full_page :: "error + issue list \<Rightarrow> bool" where
  "full_page r = (case r of Inl e \<Rightarrow> False | Inr p \<Rightarrow> limit \<le> length p)"

definition short_page :: "error + issue list \<Rightarrow> bool" where
  "short_page r = (case r of Inl e \<Rightarrow> False | Inr p \<Rightarrow> length p < limit)"

section \<open>Sample data\<close>

definition mk_user :: "string \<Rightarrow> user" where
  "mk_user a = \<lparr>accountId = a, emailAddress = a @ ''@example.org''\<rparr>"

definition mk_issue :: "string \<Rightarrow> string \<Rightarrow> string option \<Rightarrow> string option \<Rightarrow> issue" where
  "mk_issue k c a r =
     \<lparr>key = k,
      issue_fields =
        \<lparr>creator = \<lparr>accountId = c\<rparr>,
         assignee = map_option (\<lambda>x. \<lparr>accountId = x\<rparr>) a,
         reporter = map_option (\<lambda>x. \<lparr>accountId = x\<rparr>) r\<rparr>\<rparr>"

text \<open>
  A tracker with three issues. Alice watches all three, Bob watches the second. Alice
  created the first issue, is its assignee and its reporter, and is the assignee of the
  third.
\<close>

definition office :: tracker where
  "office =
     \<lparr>tracker_me = mk_user ''alice'',
      tracker_users = [mk_user ''alice'', mk_user ''bob''],
      tracker_issues =
        [(mk_issue ''A'' ''alice'' (Some ''alice'') (Some ''alice''), [''alice'']),
         (mk_issue ''B'' ''bob'' None None, [''alice'', ''bob'']),
         (mk_issue ''C'' ''carol'' (Some ''alice'') (Some ''bob''), [''alice''])],
      tracker_rejects = []\<rparr>"

text \<open>The same tracker, rejecting every mutation of the third issue.\<close>

definition guarded_office :: tracker where
  "guarded_office = office\<lparr>tracker_rejects := [''C'']\<rparr>"

text \<open>A tracker with 250 issues.\<close>

definition crowded :: tracker where
  "crowded =
     \<lparr>tracker_me = mk_user ''alice'',
      tracker_users = [mk_user ''alice''],
      tracker_issues = replicate 250 (mk_issue ''A'' ''alice'' None None, []),
      tracker_rejects = []\<rparr>"

text \<open>
  A backend that ignores the page size: a search answers with every record from the start
  offset on. Its remote state is the list of records; it knows no users and rejects
  mutations.
\<close>

definition lavish :: "issue list jira" where
  "lavish =
     \<lparr>api_jql = (\<lambda>q start lim w. (Inr (drop start w), w)),
      api_myself = (\<lambda>w. (Inl (ApiError ''not available''), w)),
      api_user = (\<lambda>a w. (Inl (ApiError ''not available''), w)),
      api_update_issue = (\<lambda>k p w. (Some (ApiError ''not available''), w)),
      api_issue_add_watcher = (\<lambda>k a w. (Some (ApiError ''not available''), w))\<rparr>"

section \<open>The remap decision in the spec's words\<close>

text \<open>
  The three checks of the spec's ownership remap handler, written from its words and not
  from the code: a creator update if the creator's account id is the source id, an assignee
  update if the assignee is present with the source id, a reporter update likewise; the
  combined request holds exactly the matched fields, each set to the target id.
\<close>

definition creator_matches :: "string \<Rightarrow> issue \<Rightarrow> bool" where
  "creator_matches source_id i = (accountId (creator (issue_fields i)) = source_id)"

definition assignee_matches :: "string \<Rightarrow> issue \<Rightarrow> bool" where
  "assignee_matches source_id i =
     (map_option accountId (assignee (issue_fields i)) = Some source_id)"

definition reporter_matches :: "string \<Rightarrow> issue \<Rightarrow> bool" where
  "reporter_matches source_id i =
     (map_option accountId (reporter (issue_fields i)) = Some source_id)"

definition combined_request :: "string \<Rightarrow> string \<Rightarrow> issue \<Rightarrow> payload" where
  "combined_request source_id target_id i =
     \<lparr>payload_fields =
        (if creator_matches source_id i then [(''creator'', \<lparr>accountId = target_id\<rparr>)] else [])
        @ (if assignee_matches source_id i then [(''assignee'', \<lparr>accountId = target_id\<rparr>)] else [])
        @ (if reporter_matches source_id i then [(''reporter'', \<lparr>accountId = target_id\<rparr>)] else [])\<rparr>"

section \<open>Invariants of the runs\<close>

text \<open>
  What holds of the state of \<^verbatim>\<open>remap_user\<close> before and after every step of its scan: the
  counter is the number of update calls that succeeded, every failed call is in the log,
  update calls are made (with \<^verbatim>\<open>apply_changes\<close>) exactly for the yielded issues with a
  matching field, and no other mutation and no report of the counter has happened.
\<close>

definition remap_inv :: "bool \<Rightarrow> string \<Rightarrow> ('w, 'z) counting_scheme \<Rightarrow> bool" where
  "remap_inv apply_changes src st \<longleftrightarrow>
     issues_updated st = length (filter succeeded (update_calls (trace st)))
   \<and> failed_calls (update_calls (trace st)) = update_failures (logged (trace st))
   \<and> map fst (update_calls (trace st)) =
       (if apply_changes
        then map key (filter (\<lambda>i. creator_matches src i \<or> assignee_matches src i
                                    \<or> reporter_matches src i) (yielded (trace st)))
        else [])
   \<and> add_watcher_calls (trace st) = []
   \<and> reported_counts (logged (trace st)) = []"

text \<open>
  The same for \<^verbatim>\<open>copy_watchers\<close>, in both of its scans: add-watcher calls are made (with
  \<^verbatim>\<open>apply_changes\<close>) exactly for the yielded issues whose key is not in the snapshot set,
  each for the target user.
\<close>

definition copy_inv :: "bool \<Rightarrow> string \<Rightarrow> ('w, 'z) watching_scheme \<Rightarrow> bool" where
  "copy_inv apply_changes tgt st \<longleftrightarrow>
     issues_updated st = length (filter succeeded (add_watcher_calls (trace st)))
   \<and> failed_calls (add_watcher_calls (trace st)) = add_watcher_failures (logged (trace st))
   \<and> map fst (add_watcher_calls (trace st)) =
       (if apply_changes
        then map key (filter (\<lambda>i. key i \<notin> target_user_watching_keys st) (yielded (trace st)))
        else [])
   \<and> list_all (\<lambda>c. fst (snd c) = tgt) (add_watcher_calls (trace st))
   \<and> update_calls (trace st) = []"

text \<open>During the snapshot scan nothing has been mutated and every yielded key is in the set.\<close>

definition snapshot_inv :: "('w, 'z) watching_scheme \<Rightarrow> bool" where
  "snapshot_inv st \<longleftrightarrow>
     issues_updated st = 0
   \<and> add_watcher_calls (trace st) = []
   \<and> add_watcher_failures (logged (trace st)) = []
   \<and> update_calls (trace st) = []
   \<and> key ` set (yielded (trace st)) \<subseteq> target_user_watching_keys st"

text \<open>
  The copy scan on the reference tracker, started in the state \<open>t0\<close> with the issues \<open>Y\<close>
  yielded before it: the remote state is what the add-watcher calls so far make of \<open>t0\<close>,
  each of them was for an issue the target did not watch, the source's search result is
  still \<open>L\<close>, and the target watches only keys of the snapshot set and of issues yielded
  by this scan.
\<close>

definition adding_inv ::
  "tracker \<Rightarrow> string \<Rightarrow> string \<Rightarrow> issue list \<Rightarrow> issue list \<Rightarrow> (tracker, 'z) watching_scheme \<Rightarrow> bool" where
  "adding_inv t0 src tgt L Y st \<longleftrightarrow>
     after_adds (add_watcher_calls (trace st)) t0 = world st
   \<and> fresh_adds (add_watcher_calls (trace st)) t0
   \<and> tracker_search (watching_query src) (world st) = L
   \<and> watched_keys tgt (world st)
       \<subseteq> target_user_watching_keys st \<union> key ` set (drop (length Y) (yielded (trace st)))"

section \<open>Query builder: properties\<close>

text \<open>
  Claim C5. The built filter is the seed (the empty string when there is none) followed by
  the sort clause: with no cutoff exactly the seed and \<^verbatim>\<open> ORDER BY Updated ASC\<close>, so that the
  seed \<^verbatim>\<open>project = X\<close> gives \<^verbatim>\<open>project = X ORDER BY Updated ASC\<close>; with a cutoff (a
  non-empty string) the clause \<^verbatim>\<open> Updated >= "cutoff"\<close> stands before the same sort clause.
  An empty cutoff string counts as no cutoff.
\<close>

theorem get_query_clauses:
  \<open>get_query seed None = (case seed of None \<Rightarrow> '''' | Some s \<Rightarrow> s) @ '' ORDER BY Updated ASC''
   \<and> (c \<noteq> '''' \<longrightarrow>
        get_query seed (Some c) =
          (case seed of None \<Rightarrow> '''' | Some s \<Rightarrow> s) @ '' Updated >= "'' @ c @ ''"''
            @ '' ORDER BY Updated ASC'')
   \<and> get_query seed (Some '''') = get_query seed None
   \<and> get_query (Some ''project = X'') None = ''project = X ORDER BY Updated ASC''\<close>
  by (simp add: get_query_def)

theorem get_query_clauses_witness:
  \<open>''2024-01-01'' \<noteq> ''''
   \<and> get_query (Some ''project = X'') (Some ''2024-01-01'') =
       ''project = X Updated >= "2024-01-01" ORDER BY Updated ASC''
   \<and> get_query None None = '' ORDER BY Updated ASC''\<close>
  using get_query_clauses [of "Some ''project = X''" "''2024-01-01''"] get_query_clauses [of None "''x''"]
  by simp

section \<open>Reading a trace: basic facts\<close>

lemma fetched_append: "fetched (xs @ ys) = fetched xs @ fetched ys"
  by (induction xs rule: fetched.induct) simp_all

lemma yielded_append: "yielded (xs @ ys) = yielded xs @ yielded ys"
  by (induction xs rule: yielded.induct) simp_all

lemma update_calls_append: "update_calls (xs @ ys) = update_calls xs @ update_calls ys"
  by (induction xs rule: update_calls.induct) simp_all

lemma add_watcher_calls_append:
  "add_watcher_calls (xs @ ys) = add_watcher_calls xs @ add_watcher_calls ys"
  by (induction xs rule: add_watcher_calls.induct) simp_all

lemma logged_append: "logged (xs @ ys) = logged xs @ logged ys"
  by (induction xs rule: logged.induct) simp_all

lemmas reader_append =
  fetched_append yielded_append update_calls_append add_watcher_calls_append logged_append

lemma emit_simps:
  "trace (emit e st) = trace st @ [e]"
  "world (emit e st) = world st"
  by (simp_all add: emit_def)

lemma emit_counting: "issues_updated (emit e st) = issues_updated st"
  by (simp add: emit_def)

lemma emit_watching: "target_user_watching_keys (emit e st) = target_user_watching_keys st"
  by (simp add: emit_def)

lemma page_of_simps: "page_of (Inr p) = p" "page_of (Inl e) = []"
  by (simp_all add: page_of_def)

lemma length_starts: "length (starts s ps) = length ps"
  by (induction ps arbitrary: s) simp_all

lemma yielded_map_Yield: "yielded (map Yield p) = p"
  by (induction p) simp_all

lemma fetched_map_Yield: "fetched (map Yield p) = []"
  by (induction p) simp_all

section \<open>Paginated iterator: properties\<close>

text \<open>A consumer that neither fetches nor yields leaves the fetches and yields of the trace alone.\<close>

lemma fold_quiet:
  assumes "\<And>i s. fetched (trace (body i s)) = fetched (trace s)"
    and "\<And>i s. yielded (trace (body i s)) = yielded (trace s)"
  shows "fetched (trace (fold (\<lambda>i s. body i (emit (Yield i) s)) p st)) = fetched (trace st)
       \<and> yielded (trace (fold (\<lambda>i s. body i (emit (Yield i) s)) p st)) = yielded (trace st) @ p"
  using assms by (induction p arbitrary: st) (simp_all add: emit_simps reader_append)

lemma fold_idle:
  "fold (\<lambda>i s. emit (Yield i) s) p st = st\<lparr>trace := trace st @ map Yield p\<rparr>"
  by (induction p arbitrary: st) (simp_all add: emit_def)

text \<open>
  The loop from any start offset and state: the answers \<open>rs\<close> it received explain the
  fetches, the yields and the way it ended.
\<close>

lemma iterate_pages:
  assumes q1: "\<And>i s. fetched (trace (body i s)) = fetched (trace s)"
    and q2: "\<And>i s. yielded (trace (body i s)) = yielded (trace s)"
  shows "iterate_jql_results n api q body s st = (out, st') \<Longrightarrow>
     \<exists>rs. fetched (trace st') =
            fetched (trace st) @ zip (map (\<lambda>x. (q, x, limit)) (starts s (map page_of rs))) rs
        \<and> yielded (trace st') = yielded (trace st) @ concat (map page_of rs)
        \<and> list_all full_page (butlast rs)
        \<and> (case out of
              Returned u \<Rightarrow> rs \<noteq> [] \<and> short_page (last rs)
            | Raised e \<Rightarrow> rs \<noteq> [] \<and> last rs = Inl e
            | OutOfFuel \<Rightarrow> length rs = n \<and> list_all full_page rs)"
proof (induction n arbitrary: s st)
  case 0
  then show ?case by (intro exI [of _ "[]"]) auto
next
  case (Suc n)
  obtain r w where call: "api_jql api q s limit (world st) = (r, w)"
    by (cases "api_jql api q s limit (world st)")
  show ?case
  proof (cases r)
    case (Inl e)
    with Suc.prems call
    have "out = Raised e" "st' = emit (JqlCall q s limit (Inl e)) (st\<lparr>world := w\<rparr>)"
      by auto
    then show ?thesis
      by (intro exI [of _ "[Inl e]"]) (simp add: emit_simps reader_append page_of_simps)
  next
    case (Inr p)
    define st2 where
      "st2 = fold (\<lambda>i s. body i (emit (Yield i) s)) p
               (emit (JqlCall q s limit (Inr p)) (st\<lparr>world := w\<rparr>))"
    have f2: "fetched (trace st2) = fetched (trace st) @ [((q, s, limit), Inr p)]"
      and y2: "yielded (trace st2) = yielded (trace st) @ p"
      unfolding st2_def using fold_quiet [of body, OF q1 q2]
      by (simp_all add: emit_simps reader_append)
    show ?thesis
    proof (cases "length p < limit")
      case True
      with Suc.prems call Inr have "out = Returned ()" "st' = st2"
        by (auto simp: st2_def Let_def)
      with f2 y2 True show ?thesis
        by (intro exI [of _ "[Inr p]"]) (simp add: page_of_simps short_page_def)
    next
      case False
      with Suc.prems call Inr
      have "iterate_jql_results n api q body (s + length p) st2 = (out, st')"
        by (auto simp: st2_def Let_def)
      from Suc.IH [OF this] obtain rs where rs:
        "fetched (trace st') =
           fetched (trace st2)
             @ zip (map (\<lambda>x. (q, x, limit)) (starts (s + length p) (map page_of rs))) rs"
        "yielded (trace st') = yielded (trace st2) @ concat (map page_of rs)"
        "list_all full_page (butlast rs)"
        "(case out of
            Returned u \<Rightarrow> rs \<noteq> [] \<and> short_page (last rs)
          | Raised e \<Rightarrow> rs \<noteq> [] \<and> last rs = Inl e
          | OutOfFuel \<Rightarrow> length rs = n \<and> list_all full_page rs)"
        by blast
      from False have fp: "full_page (Inr p)" by (simp add: full_page_def)
      show ?thesis
        apply (intro exI [of _ "Inr p # rs"])
        using rs f2 y2 fp by (auto simp: page_of_simps split: outcome.splits)
    qed
  qed
qed

text \<open>250 matching issues on the reference tracker, read by a consumer that does nothing.\<close>

lemma scenario_250:
  assumes len: "length (tracker_search q t) = 250"
  shows "case iterate_jql_results (Suc (Suc (Suc k))) tracker_api q (\<lambda>i s. s) 0
                \<lparr>world = t, trace = []\<rparr> of
           (out, st') \<Rightarrow>
             out = Returned ()
           \<and> map (\<lambda>(c, r). (c, length (page_of r))) (fetched (trace st')) =
                [((q, 0, 100), 100), ((q, 100, 100), 100), ((q, 200, 100), 50)]
           \<and> yielded (trace st') = tracker_search q t
           \<and> length (yielded (trace st')) = 250"
proof -
  define L where "L = tracker_search q t"
  have l: "length L = 250" using len by (simp add: L_def)
  have j: "\<And>s. api_jql tracker_api q s 100 t = (Inr (take 100 (drop s L)), t)"
    by (simp add: tracker_api_def tracker_jql_def L_def)
  have split: "take 100 L @ take 100 (drop 100 L) @ take 100 (drop 200 L) = L"
  proof -
    have "take 100 (drop 200 L) = drop 200 L" using l by simp
    moreover have "take 100 (drop 100 L) @ drop 200 L = drop 100 L"
      using append_take_drop_id [of 100 "drop 100 L"] by simp
    ultimately show ?thesis by simp
  qed
  show ?thesis
    using l split
    by (simp add: j fold_idle emit_def limit_def reader_append yielded_map_Yield
        fetched_map_Yield page_of_simps L_def [symmetric] del: append_take_drop_id)
qed

text \<open>
  Claim C1. Whatever pages the backend returns, the iterator fetches with the given query
  and the limit of 100, first at offset 0 and then at the offset advanced by the number of
  records of the page before; it yields the concatenation of the fetched pages in order;
  every page but the last one fetched has at least 100 records; it returns exactly after a
  page of fewer than 100 records (an empty one too), an exception of a fetch leaves it,
  and only \<open>n\<close> full pages use up the bound \<open>n\<close>. With 250 matching issues on the reference
  tracker there are three fetches, at 0, 100 and 200, of 100, 100 and 50 records, and 250
  records are yielded. The consumer is any loop body that itself neither fetches nor
  yields.
\<close>

theorem iterate_jql_results_pages:
  assumes quiet:
    "\<forall>i s. fetched (trace (body i s)) = fetched (trace s)
         \<and> yielded (trace (body i s)) = yielded (trace s)"
  shows
    "(case iterate_jql_results n api q body 0 (st\<lparr>trace := []\<rparr>) of
        (out, st') \<Rightarrow>
          (let rs = map snd (fetched (trace st')); ps = map page_of rs in
             map fst (fetched (trace st')) = map (\<lambda>s. (q, s, limit)) (starts 0 ps)
           \<and> yielded (trace st') = concat ps
           \<and> list_all full_page (butlast rs)
           \<and> (case out of
                 Returned u \<Rightarrow> rs \<noteq> [] \<and> short_page (last rs)
               | Raised e \<Rightarrow> rs \<noteq> [] \<and> last rs = Inl e
               | OutOfFuel \<Rightarrow> length rs = n \<and> list_all full_page rs)))
     \<and> (length (tracker_search q' t) = 250 \<longrightarrow>
          (case iterate_jql_results (Suc (Suc (Suc k))) tracker_api q' (\<lambda>i s. s) 0
                  \<lparr>world = t, trace = []\<rparr> of
             (out, st') \<Rightarrow>
               out = Returned ()
             \<and> map (\<lambda>(c, r). (c, length (page_of r))) (fetched (trace st')) =
                  [((q', 0, 100), 100), ((q', 100, 100), 100), ((q', 200, 100), 50)]
             \<and> yielded (trace st') = tracker_search q' t
             \<and> length (yielded (trace st')) = 250))"
proof (intro conjI impI)
  obtain out st' where run: "iterate_jql_results n api q body 0 (st\<lparr>trace := []\<rparr>) = (out, st')"
    by (cases "iterate_jql_results n api q body 0 (st\<lparr>trace := []\<rparr>)")
  from quiet have q1: "\<And>i s. fetched (trace (body i s)) = fetched (trace s)"
    and q2: "\<And>i s. yielded (trace (body i s)) = yielded (trace s)"
    by simp_all
  from iterate_pages [of body, OF q1 q2 run] obtain rs where rs:
    "fetched (trace st') = zip (map (\<lambda>x. (q, x, limit)) (starts 0 (map page_of rs))) rs"
    "yielded (trace st') = concat (map page_of rs)"
    "list_all full_page (butlast rs)"
    "(case out of
        Returned u \<Rightarrow> rs \<noteq> [] \<and> short_page (last rs)
      | Raised e \<Rightarrow> rs \<noteq> [] \<and> last rs = Inl e
      | OutOfFuel \<Rightarrow> length rs = n \<and> list_all full_page rs)"
    by auto
  have snd_eq: "map snd (fetched (trace st')) = rs"
    by (simp add: rs(1) length_starts)
  have fst_eq:
    "map fst (fetched (trace st')) = map (\<lambda>x. (q, x, limit)) (starts 0 (map page_of rs))"
    by (simp add: rs(1) length_starts)
  show "case iterate_jql_results n api q body 0 (st\<lparr>trace := []\<rparr>) of
        (out, st') \<Rightarrow>
          (let rs = map snd (fetched (trace st')); ps = map page_of rs in
             map fst (fetched (trace st')) = map (\<lambda>s. (q, s, limit)) (starts 0 ps)
           \<and> yielded (trace st') = concat ps
           \<and> list_all full_page (butlast rs)
           \<and> (case out of
                 Returned u \<Rightarrow> rs \<noteq> [] \<and> short_page (last rs)
               | Raised e \<Rightarrow> rs \<noteq> [] \<and> last rs = Inl e
               | OutOfFuel \<Rightarrow> length rs = n \<and> list_all full_page rs))"
    unfolding run prod.case Let_def snd_eq using rs(2-4) fst_eq by simp
next
  assume "length (tracker_search q' t) = 250"
  then show "case iterate_jql_results (Suc (Suc (Suc k))) tracker_api q' (\<lambda>i s. s) 0
                  \<lparr>world = t, trace = []\<rparr> of
             (out, st') \<Rightarrow>
               out = Returned ()
             \<and> map (\<lambda>(c, r). (c, length (page_of r))) (fetched (trace st')) =
                  [((q', 0, 100), 100), ((q', 100, 100), 100), ((q', 200, 100), 50)]
             \<and> yielded (trace st') = tracker_search q' t
             \<and> length (yielded (trace st')) = 250"
    by (rule scenario_250)
qed

lemma crowded_len: "length (tracker_search (get_query None None) crowded) = 250"
  by (simp add: tracker_search_def crowded_def tracker_matches_def)

theorem iterate_jql_results_pages_witness:
  "length (tracker_search (get_query None None) crowded) = 250
   \<and> (case iterate_jql_results (Suc (Suc (Suc 0))) tracker_api (get_query None None) (\<lambda>i s. s) 0
              \<lparr>world = crowded, trace = []\<rparr> of
        (out, st') \<Rightarrow>
          out = Returned ()
        \<and> map (\<lambda>(c, r). (c, length (page_of r))) (fetched (trace st')) =
             [((get_query None None, 0, 100), 100), ((get_query None None, 100, 100), 100),
              ((get_query None None, 200, 100), 50)]
        \<and> yielded (trace st') = tracker_search (get_query None None) crowded
        \<and> length (yielded (trace st')) = 250)
   \<and> (case iterate_jql_results (Suc 0) tracker_api (watching_query ''bob'') (\<lambda>i s. s) 0
              \<lparr>world = office, trace = []\<rparr> of
        (out, st') \<Rightarrow>
          out = Returned ()
        \<and> map fst (fetched (trace st')) = [(watching_query ''bob'', 0, limit)]
        \<and> map key (yielded (trace st')) = [''B''])"
proof -
  have run: "iterate_jql_results (Suc 0) tracker_api (watching_query ''bob'') (\<lambda>i s. s) 0
              \<lparr>world = office, trace = []\<rparr> =
        (Returned (), \<lparr>world = office, trace = [JqlCall (watching_query ''bob'') 0 limit
           (Inr [mk_issue ''B'' ''bob'' None None]), Yield (mk_issue ''B'' ''bob'' None None)]\<rparr>)"
    by (simp add: tracker_api_def tracker_jql_def tracker_search_def office_def
        tracker_matches_def watching_query_def get_query_def emit_def limit_def)
  have quiet: "\<forall>i s. fetched (trace ((\<lambda>i s. s) i (s :: tracker env))) = fetched (trace s)
         \<and> yielded (trace ((\<lambda>i s. s) i s)) = yielded (trace s)"
    by simp
  note inst = iterate_jql_results_pages [where body = "\<lambda>i s. s" and n = "Suc 0" and api = tracker_api
        and q = "watching_query ''bob''" and st = "\<lparr>world = office, trace = []\<rparr>"
        and q' = "get_query None None" and t = crowded and k = 0, OF quiet]
  have scen:
    "case iterate_jql_results (Suc (Suc (Suc 0))) tracker_api (get_query None None) (\<lambda>i s. s) 0
              \<lparr>world = crowded, trace = []\<rparr> of
        (out, st') \<Rightarrow>
          out = Returned ()
        \<and> map (\<lambda>(c, r). (c, length (page_of r))) (fetched (trace st')) =
             [((get_query None None, 0, 100), 100), ((get_query None None, 100, 100), 100),
              ((get_query None None, 200, 100), 50)]
        \<and> yielded (trace st') = tracker_search (get_query None None) crowded
        \<and> length (yielded (trace st')) = 250"
    by (rule inst [THEN conjunct2, THEN mp, OF crowded_len])
  have third: "case iterate_jql_results (Suc 0) tracker_api (watching_query ''bob'') (\<lambda>i s. s) 0
              \<lparr>world = office, trace = []\<rparr> of
        (out, st') \<Rightarrow>
          out = Returned ()
        \<and> map fst (fetched (trace st')) = [(watching_query ''bob'', 0, limit)]
        \<and> map key (yielded (trace st')) = [''B'']"
    unfolding run by (simp add: mk_issue_def)
  show ?thesis by (rule conjI [OF crowded_len conjI [OF scen third]])
qed

text \<open>
  Claim C9. A page of more than 100 records does not end the loop and loses nothing: every
  record of the page is yielded, in order, and the next fetch starts at the offset advanced
  by the number of records the page really had, not by the limit.
\<close>

theorem overfull_page_continues:
  assumes quiet:
    "\<forall>i s. fetched (trace (body i s)) = fetched (trace s)
         \<and> yielded (trace (body i s)) = yielded (trace s)"
    and page: "api_jql api q s limit (world st) = (Inr p, w)"
    and over: "limit < length p"
  shows
    "case iterate_jql_results (Suc (Suc n)) api q body s (st\<lparr>trace := []\<rparr>) of
       (out, st') \<Rightarrow>
         take 2 (map fst (fetched (trace st'))) = [(q, s, limit), (q, s + length p, limit)]
       \<and> map snd (take 1 (fetched (trace st'))) = [Inr p]
       \<and> take (length p) (yielded (trace st')) = p"
proof -
  from quiet have q1: "\<And>i s. fetched (trace (body i s)) = fetched (trace s)"
    and q2: "\<And>i s. yielded (trace (body i s)) = yielded (trace s)"
    by simp_all
  define st2 where
    "st2 = fold (\<lambda>i s. body i (emit (Yield i) s)) p
             (emit (JqlCall q s limit (Inr p)) (st\<lparr>trace := [], world := w\<rparr>))"
  have f2: "fetched (trace st2) = [((q, s, limit), Inr p)]"
    and y2: "yielded (trace st2) = p"
    unfolding st2_def using fold_quiet [of body, OF q1 q2]
    by (simp_all add: emit_simps reader_append)
  obtain out st' where rest:
    "iterate_jql_results (Suc n) api q body (s + length p) st2 = (out, st')"
    by (cases "iterate_jql_results (Suc n) api q body (s + length p) st2")
  have step: "iterate_jql_results (Suc (Suc n)) api q body s (st\<lparr>trace := []\<rparr>) = (out, st')"
    using page over rest by (simp add: st2_def Let_def)
  from iterate_pages [of body, OF q1 q2 rest] obtain rs where rs:
    "fetched (trace st') =
       fetched (trace st2)
         @ zip (map (\<lambda>x. (q, x, limit)) (starts (s + length p) (map page_of rs))) rs"
    "yielded (trace st') = yielded (trace st2) @ concat (map page_of rs)"
    "(case out of
        Returned u \<Rightarrow> rs \<noteq> [] \<and> short_page (last rs)
      | Raised e \<Rightarrow> rs \<noteq> [] \<and> last rs = Inl e
      | OutOfFuel \<Rightarrow> length rs = Suc n \<and> list_all full_page rs)"
    by blast
  from rs(3) have "rs \<noteq> []" by (cases out) auto
  then obtain r rs' where r: "rs = r # rs'" by (cases rs) auto
  show ?thesis
    unfolding step using rs(1,2) f2 y2 by (simp add: r)
qed


theorem overfull_page_continues_witness:
  "api_jql lavish ''q'' 0 limit (world \<lparr>world = replicate 101 (mk_issue ''A'' ''alice'' None None), trace = []\<rparr>)
     = (Inr (replicate 101 (mk_issue ''A'' ''alice'' None None)), replicate 101 (mk_issue ''A'' ''alice'' None None))
   \<and> limit < length (replicate 101 (mk_issue ''A'' ''alice'' None None))
   \<and> (case iterate_jql_results (Suc (Suc 0)) lavish ''q'' (\<lambda>i s. s) 0
              (\<lparr>world = replicate 101 (mk_issue ''A'' ''alice'' None None), trace = []\<rparr>\<lparr>trace := []\<rparr>) of
        (out, st') \<Rightarrow>
          take 2 (map fst (fetched (trace st'))) =
            [(''q'', 0, limit), (''q'', 0 + length (replicate 101 (mk_issue ''A'' ''alice'' None None)), limit)]
        \<and> map snd (take 1 (fetched (trace st'))) = [Inr (replicate 101 (mk_issue ''A'' ''alice'' None None))]
        \<and> take (length (replicate 101 (mk_issue ''A'' ''alice'' None None))) (yielded (trace st'))
            = replicate 101 (mk_issue ''A'' ''alice'' None None))
   \<and> fst (iterate_jql_results (Suc (Suc 0)) lavish ''q'' (\<lambda>i s. s) 0
              \<lparr>world = replicate 101 (mk_issue ''A'' ''alice'' None None), trace = []\<rparr>) = Returned ()"
proof -
  let ?W = "replicate 101 (mk_issue ''A'' ''alice'' None None)"
  have quiet: "\<forall>i s. fetched (trace ((\<lambda>i s. s) i (s :: issue list env))) = fetched (trace s)
         \<and> yielded (trace ((\<lambda>i s. s) i s)) = yielded (trace s)"
    by simp
  have page: "api_jql lavish ''q'' 0 limit (world \<lparr>world = ?W, trace = []\<rparr>) = (Inr ?W, ?W)"
    by (simp add: lavish_def)
  have over: "limit < length ?W" by (simp add: limit_def)
  note inst = overfull_page_continues [where body = "\<lambda>i s. s" and api = lavish and q = "''q''"
      and s = 0 and st = "\<lparr>world = ?W, trace = []\<rparr>" and p = ?W and w = ?W and n = 0,
      OF quiet page over]
  have ret: "fst (iterate_jql_results (Suc (Suc 0)) lavish ''q'' (\<lambda>i s. s) 0
              \<lparr>world = ?W, trace = []\<rparr>) = Returned ()"
    by (simp add: lavish_def limit_def fold_idle emit_def Let_def del: fold_replicate)
  show ?thesis by (rule conjI [OF page conjI [OF over conjI [OF inst ret]]])
qed

section \<open>Ownership remap handler: properties\<close>

text \<open>What one call of the closure \<^verbatim>\<open>update_issue\<close> adds to the trace and to the counter.\<close>

lemma remap_update_issue_trace:
  "trace (remap_update_issue api apply_changes i req st) =
     trace st @
       (if \<not> apply_changes then [Log (DryRunUpdate (key i) req)]
        else case fst (api_update_issue api (key i) req (world st)) of
               None \<Rightarrow> [UpdateIssueCall (key i) req None]
             | Some e \<Rightarrow> [UpdateIssueCall (key i) req (Some e), Log (UpdateFailed (key i) e)])"
  by (cases "api_update_issue api (key i) req (world st)")
     (auto simp: remap_update_issue_def emit_def split: option.splits)

lemma remap_update_issue_counter:
  "issues_updated (remap_update_issue api apply_changes i req st) =
     issues_updated st +
       (if apply_changes \<and> fst (api_update_issue api (key i) req (world st)) = None then 1 else 0)"
  by (cases "api_update_issue api (key i) req (world st)")
     (auto simp: remap_update_issue_def emit_def split: option.splits)

text \<open>The code's \<^verbatim>\<open>updates\<close> dictionary is the spec's combined request.\<close>

lemma remap_process_issue_eq:
  "remap_process_issue api apply_changes src tgt i st =
     (if creator_matches src i \<or> assignee_matches src i \<or> reporter_matches src i
      then remap_update_issue api apply_changes i (combined_request src tgt i) st
      else st)"
  by (cases "assignee (issue_fields i)"; cases "reporter (issue_fields i)")
     (auto simp: remap_process_issue_def combined_request_def creator_matches_def
        assignee_matches_def reporter_matches_def Let_def)


text \<open>
  Claim C2, amended. For every issue handed to the remap handler's \<^verbatim>\<open>process_issue\<close>: with
  \<^verbatim>\<open>apply_changes\<close> set, one update request is sent if and only if at least one of the three
  checks matches (creator, assignee present, reporter present, each against the source
  id), and it is the single combined request of exactly the matched fields, each set to
  the target id; when all three match it holds all three fields, and when none matches no
  request is sent. Without \<^verbatim>\<open>apply_changes\<close> (the dry run) the same combined request is
  logged and nothing is sent.
\<close>

theorem remap_process_issue_sends:
  "(let st' = remap_process_issue api apply_changes src tgt i st;
        matched = (creator_matches src i \<or> assignee_matches src i \<or> reporter_matches src i);
        req = combined_request src tgt i
    in update_calls (trace st') =
         update_calls (trace st) @
           (if apply_changes \<and> matched
            then [(key i, req, fst (api_update_issue api (key i) req (world st)))] else [])
     \<and> logged (trace st') =
         logged (trace st) @
           (if \<not> matched then []
            else if \<not> apply_changes then [DryRunUpdate (key i) req]
            else case fst (api_update_issue api (key i) req (world st)) of
                   None \<Rightarrow> [] | Some e \<Rightarrow> [UpdateFailed (key i) e]))
   \<and> (creator_matches src i \<and> assignee_matches src i \<and> reporter_matches src i \<longrightarrow>
        payload_fields (combined_request src tgt i) =
          [(''creator'', \<lparr>accountId = tgt\<rparr>), (''assignee'', \<lparr>accountId = tgt\<rparr>),
           (''reporter'', \<lparr>accountId = tgt\<rparr>)])"
  by (simp add: remap_process_issue_eq remap_update_issue_trace reader_append Let_def
      combined_request_def split: option.splits)

text \<open>In the dry run the creator of the issue matches and still no request is sent.\<close>

theorem remap_process_issue_dry_run_counterexample:
  "creator_matches ''alice'' (mk_issue ''A'' ''alice'' (Some ''alice'') (Some ''alice''))
   \<and> update_calls (trace (remap_process_issue tracker_api False ''alice'' ''bob''
        (mk_issue ''A'' ''alice'' (Some ''alice'') (Some ''alice''))
        \<lparr>world = office, trace = [], issues_updated = 0\<rparr>)) = []"
  by (simp add: remap_process_issue_eq remap_update_issue_trace creator_matches_def mk_issue_def)

theorem remap_process_issue_sends_witness:
  "creator_matches ''alice'' (mk_issue ''A'' ''alice'' (Some ''alice'') (Some ''alice''))
   \<and> assignee_matches ''alice'' (mk_issue ''A'' ''alice'' (Some ''alice'') (Some ''alice''))
   \<and> reporter_matches ''alice'' (mk_issue ''A'' ''alice'' (Some ''alice'') (Some ''alice''))
   \<and> update_calls (trace (remap_process_issue tracker_api True ''alice'' ''bob''
        (mk_issue ''A'' ''alice'' (Some ''alice'') (Some ''alice''))
        \<lparr>world = office, trace = [], issues_updated = 0\<rparr>)) =
       [(''A'',
         \<lparr>payload_fields =
            [(''creator'', \<lparr>accountId = ''bob''\<rparr>), (''assignee'', \<lparr>accountId = ''bob''\<rparr>),
             (''reporter'', \<lparr>accountId = ''bob''\<rparr>)]\<rparr>,
         None)]
   \<and> update_calls (trace (remap_process_issue tracker_api True ''alice'' ''bob''
        (mk_issue ''B'' ''bob'' None None)
        \<lparr>world = office, trace = [], issues_updated = 0\<rparr>)) = []"
proof -
  let ?A = "mk_issue ''A'' ''alice'' (Some ''alice'') (Some ''alice'')"
  let ?B = "mk_issue ''B'' ''bob'' None None"
  let ?st = "\<lparr>world = office, trace = [], issues_updated = 0\<rparr>"
  have m: "creator_matches ''alice'' ?A" "assignee_matches ''alice'' ?A"
    "reporter_matches ''alice'' ?A"
    by (simp_all add: creator_matches_def assignee_matches_def reporter_matches_def mk_issue_def)
  have nm: "\<not> creator_matches ''alice'' ?B" "\<not> assignee_matches ''alice'' ?B"
    "\<not> reporter_matches ''alice'' ?B"
    by (simp_all add: creator_matches_def assignee_matches_def reporter_matches_def mk_issue_def)
  have ok: "fst (api_update_issue tracker_api ''A'' (combined_request ''alice'' ''bob'' ?A) office) = None"
    by (simp add: tracker_api_def tracker_update_issue_def office_def)
  have k: "key ?A = ''A''" by (simp add: mk_issue_def)
  from remap_process_issue_sends [where api = tracker_api and apply_changes = True
      and src = "''alice''" and tgt = "''bob''" and i = ?A and st = ?st] m ok k
  have a: "update_calls (trace (remap_process_issue tracker_api True ''alice'' ''bob'' ?A ?st)) =
       [(''A'',
         \<lparr>payload_fields =
            [(''creator'', \<lparr>accountId = ''bob''\<rparr>), (''assignee'', \<lparr>accountId = ''bob''\<rparr>),
             (''reporter'', \<lparr>accountId = ''bob''\<rparr>)]\<rparr>,
         None)]"
    by (simp add: Let_def combined_request_def)
  from remap_process_issue_sends [where api = tracker_api and apply_changes = True
      and src = "''alice''" and tgt = "''bob''" and i = ?B and st = ?st] nm
  have b: "update_calls (trace (remap_process_issue tracker_api True ''alice'' ''bob'' ?B ?st)) = []"
    by (simp add: Let_def)
  from m a b show ?thesis by simp
qed

text \<open>Writing the combined request changes the issue when the two ids differ.\<close>

lemma combined_request_changes:
  assumes ne: "src \<noteq> tgt"
    and m: "creator_matches src i \<or> assignee_matches src i \<or> reporter_matches src i"
  shows "apply_payload (combined_request src tgt i) i \<noteq> i"
proof
  assume eq: "apply_payload (combined_request src tgt i) i = i"
  let ?j = "apply_payload (combined_request src tgt i) i"
  have c: "creator_matches src i \<Longrightarrow> accountId (creator (issue_fields ?j)) = tgt"
    by (simp add: apply_payload_def combined_request_def set_field_def)
  have a: "assignee_matches src i \<Longrightarrow>
      map_option accountId (assignee (issue_fields ?j)) = Some tgt"
    by (simp add: apply_payload_def combined_request_def set_field_def)
  have r: "reporter_matches src i \<Longrightarrow>
      map_option accountId (reporter (issue_fields ?j)) = Some tgt"
    by (simp add: apply_payload_def combined_request_def set_field_def)
  from m c a r ne show False
    unfolding eq by (auto simp: creator_matches_def assignee_matches_def reporter_matches_def)
qed

lemma combined_request_nonempty:
  "creator_matches src i \<or> assignee_matches src i \<or> reporter_matches src i \<Longrightarrow>
   payload_fields (combined_request src tgt i) \<noteq> []"
  by (auto simp: combined_request_def)

section \<open>Whole runs: invariants\<close>

lemma failed_calls_append: "failed_calls (xs @ ys) = failed_calls xs @ failed_calls ys"
  by (induction xs rule: failed_calls.induct) simp_all

lemma update_failures_append: "update_failures (xs @ ys) = update_failures xs @ update_failures ys"
  by (induction xs rule: update_failures.induct) simp_all

lemma add_watcher_failures_append:
  "add_watcher_failures (xs @ ys) = add_watcher_failures xs @ add_watcher_failures ys"
  by (induction xs rule: add_watcher_failures.induct) simp_all

lemma reported_counts_append: "reported_counts (xs @ ys) = reported_counts xs @ reported_counts ys"
  by (induction xs rule: reported_counts.induct) simp_all

lemmas log_append =
  failed_calls_append update_failures_append add_watcher_failures_append reported_counts_append

text \<open>
  A property of the state that every fetch and every yield-and-consume step keeps holds
  after the loop, however it ends.
\<close>

lemma fold_invariant:
  assumes "P st" and "\<And>i s. P s \<Longrightarrow> P (body i (emit (Yield i) s))"
  shows "P (fold (\<lambda>i s. body i (emit (Yield i) s)) p st)"
  using assms by (induction p arbitrary: st) simp_all

lemma iterate_invariant:
  assumes init: "P st"
    and step: "\<And>i s. P s \<Longrightarrow> P (body i (emit (Yield i) s))"
    and fetch: "\<And>s x r w. P s \<Longrightarrow> P (emit (JqlCall q x limit r) (s\<lparr>world := w\<rparr>))"
  shows "P (snd (iterate_jql_results n api q body start st))"
  using init
proof (induction n arbitrary: start st)
  case 0
  then show ?case by simp
next
  case (Suc n)
  obtain r w where call: "api_jql api q start limit (world st) = (r, w)"
    by (cases "api_jql api q start limit (world st)")
  show ?case
  proof (cases r)
    case (Inl e)
    with call Suc.prems show ?thesis by (simp add: fetch)
  next
    case (Inr p)
    let ?st2 = "fold (\<lambda>i s. body i (emit (Yield i) s)) p
                  (emit (JqlCall q start limit (Inr p)) (st\<lparr>world := w\<rparr>))"
    have "P ?st2" by (rule fold_invariant) (simp_all add: fetch Suc.prems step)
    with call Inr Suc.IH [of ?st2] show ?thesis by (simp add: Let_def)
  qed
qed

text \<open>A loop that ends with an exception ends with the fetch that raised it.\<close>

lemma iterate_raised:
  "iterate_jql_results n api q body start st = (Raised e, st') \<Longrightarrow>
   trace st' \<noteq> [] \<and> raised_by (last (trace st')) = Some e"
proof (induction n arbitrary: start st)
  case 0
  then show ?case by simp
next
  case (Suc n)
  obtain r w where call: "api_jql api q start limit (world st) = (r, w)"
    by (cases "api_jql api q start limit (world st)")
  show ?case
  proof (cases r)
    case (Inl e')
    with call Suc.prems show ?thesis by (auto simp: emit_def)
  next
    case (Inr p)
    with call Suc.prems Suc.IH show ?thesis
      by (auto simp: Let_def split: if_splits)
  qed
qed


section \<open>Ownership remap handler: whole runs\<close>

lemma remap_process_issue_inv:
  assumes "remap_inv apply_changes src s"
  shows "remap_inv apply_changes src (remap_process_issue api apply_changes src tgt i (emit (Yield i) s))"
proof (cases "creator_matches src i \<or> assignee_matches src i \<or> reporter_matches src i")
  case False
  with assms show ?thesis
    by (simp add: remap_process_issue_eq remap_inv_def emit_simps emit_counting reader_append)
next
  case True
  obtain r w where call:
    "api_update_issue api (key i) (combined_request src tgt i) (world s) = (r, w)"
    by (cases "api_update_issue api (key i) (combined_request src tgt i) (world s)")
  from True assms call show ?thesis
    by (cases r)
       (simp_all add: remap_process_issue_eq remap_update_issue_def remap_inv_def emit_def
          reader_append log_append succeeded_def)
qed

lemma remap_scan_inv:
  assumes "remap_inv apply_changes src st"
  shows "remap_inv apply_changes src
           (snd (iterate_jql_results n api q (remap_process_issue api apply_changes src tgt) start st))"
  by (rule iterate_invariant [where P = "remap_inv apply_changes src"])
     (simp_all add: assms remap_process_issue_inv,
      simp add: remap_inv_def emit_def reader_append log_append)


text \<open>The run of \<^verbatim>\<open>remap_user\<close>, however it ends.\<close>

lemma remap_user_run:
  assumes run: "remap_user n api src tgt seed apply_changes w0 = (out, st)"
  shows "issues_updated st = length (filter succeeded (update_calls (trace st)))
       \<and> failed_calls (update_calls (trace st)) = update_failures (logged (trace st))
       \<and> map fst (update_calls (trace st)) =
           (if apply_changes
            then map key (filter (\<lambda>i. creator_matches src i \<or> assignee_matches src i
                                        \<or> reporter_matches src i) (yielded (trace st)))
            else [])
       \<and> add_watcher_calls (trace st) = []
       \<and> (case out of
             Returned v \<Rightarrow>
               v = PyNone \<and> trace st \<noteq> []
             \<and> last (trace st) = Log (UpdatedCount (issues_updated st))
             \<and> reported_counts (logged (trace st)) = [issues_updated st]
           | Raised e \<Rightarrow>
               trace st \<noteq> [] \<and> raised_by (last (trace st)) = Some e
             \<and> reported_counts (logged (trace st)) = []
           | OutOfFuel \<Rightarrow> reported_counts (logged (trace st)) = [])"
proof -
  let ?st0 = "\<lparr>world = w0, trace = [], issues_updated = 0\<rparr>"
  obtain rm w1 where me: "api_myself api w0 = (rm, w1)" by (cases "api_myself api w0")
  show ?thesis
  proof (cases rm)
    case (Inl e)
    with run me have "out = Raised e" "st = emit (MyselfCall (Inl e)) (?st0\<lparr>world := w1\<rparr>)"
      by (simp_all add: remap_user_def)
    then show ?thesis by (simp add: emit_def)
  next
    case (Inr myself)
    define st2 where
      "st2 = (if src \<noteq> accountId myself
              then emit (Log (SourceNotSelf src (accountId myself)))
                     (emit (MyselfCall (Inr myself)) (?st0\<lparr>world := w1\<rparr>))
              else emit (MyselfCall (Inr myself)) (?st0\<lparr>world := w1\<rparr>))"
    have inv2: "remap_inv apply_changes src st2"
      by (simp add: st2_def remap_inv_def emit_def)
    have world2: "world st2 = w1" by (simp add: st2_def emit_def)
    obtain ru w2 where usr: "api_user api tgt w1 = (ru, w2)"
      by (cases "api_user api tgt w1")
    show ?thesis
    proof (cases ru)
      case (Inl e)
      with run me Inr usr
      have "out = Raised e" "st = emit (UserCall tgt (Inl e)) (st2\<lparr>world := w2\<rparr>)"
        by (auto simp: remap_user_def st2_def Let_def emit_def split: if_splits)
      with inv2 show ?thesis by (simp add: emit_def remap_inv_def reader_append log_append)
    next
      case (Inr target_user)
      define st4 where
        "st4 = (emit (UserCall tgt (Inr target_user)) (st2\<lparr>world := w2\<rparr>))\<lparr>issues_updated := 0\<rparr>"
      have inv4: "remap_inv apply_changes src st4"
        by (simp add: st4_def st2_def emit_def remap_inv_def)
      obtain out5 st5 where scan:
        "iterate_jql_results n api (get_query seed None)
           (remap_process_issue api apply_changes src tgt) 0 st4 = (out5, st5)"
        by (cases "iterate_jql_results n api (get_query seed None)
                     (remap_process_issue api apply_changes src tgt) 0 st4")
      from remap_scan_inv [OF inv4, of n api "get_query seed None" tgt 0] scan
      have inv5: "remap_inv apply_changes src st5" by simp
      from run me \<open>rm = Inr myself\<close> usr Inr scan
      have res: "(out, st) =
          (case out5 of
             Returned u \<Rightarrow> (Returned PyNone, emit (Log (UpdatedCount (issues_updated st5))) st5)
           | Raised e \<Rightarrow> (Raised e, st5)
           | OutOfFuel \<Rightarrow> (OutOfFuel, st5))"
        by (auto simp: remap_user_def st2_def st4_def Let_def emit_def
            split: if_splits outcome.splits)
      show ?thesis
      proof (cases out5)
        case (Returned u)
        with res inv5 show ?thesis
          by (simp add: emit_def remap_inv_def reader_append log_append)
      next
        case (Raised e)
        with res inv5 iterate_raised [of n api "get_query seed None" _ 0 st4 e st5] scan
        show ?thesis by (simp add: remap_inv_def)
      next
        case OutOfFuel
        with res inv5 show ?thesis by (simp add: remap_inv_def)
      qed
    qed
  qed
qed

section \<open>Watcher copy handler: whole runs\<close>

lemma snapshot_inv_copy_inv: "snapshot_inv st \<Longrightarrow> copy_inv apply_changes tgt st"
proof -
  assume s: "snapshot_inv st"
  then have "filter (\<lambda>i. key i \<notin> target_user_watching_keys st) (yielded (trace st)) = []"
    by (auto simp: snapshot_inv_def filter_empty_conv)
  with s show ?thesis by (simp add: snapshot_inv_def copy_inv_def)
qed

lemma snapshot_step_inv:
  "snapshot_inv s \<Longrightarrow> snapshot_inv (snapshot_step i (emit (Yield i) s))"
  by (auto simp: snapshot_inv_def snapshot_step_def emit_def reader_append log_append)

lemma snapshot_scan_inv:
  assumes "snapshot_inv st"
  shows "snapshot_inv (snd (iterate_jql_results n api q snapshot_step start st))"
  by (rule iterate_invariant [where P = snapshot_inv])
     (simp_all add: assms snapshot_step_inv,
      simp add: snapshot_inv_def emit_def reader_append log_append)

lemma copy_step_inv:
  assumes "copy_inv apply_changes tgt s"
  shows "copy_inv apply_changes tgt (copy_step api apply_changes tgt i (emit (Yield i) s))"
proof (cases "key i \<in> target_user_watching_keys s")
  case True
  with assms show ?thesis
    by (simp add: copy_step_def copy_inv_def emit_def reader_append log_append)
next
  case False
  obtain r w where call: "api_issue_add_watcher api (key i) tgt (world s) = (r, w)"
    by (cases "api_issue_add_watcher api (key i) tgt (world s)")
  from False assms call show ?thesis
    by (cases r)
       (simp_all add: copy_step_def copy_process_issue_def copy_inv_def emit_def
          reader_append log_append succeeded_def)
qed

lemma copy_scan_inv:
  assumes "copy_inv apply_changes tgt st"
  shows "copy_inv apply_changes tgt
           (snd (iterate_jql_results n api q (copy_step api apply_changes tgt) start st))"
  by (rule iterate_invariant [where P = "copy_inv apply_changes tgt"])
     (simp_all add: assms copy_step_inv,
      simp add: copy_inv_def emit_def reader_append log_append)


text \<open>The run of \<^verbatim>\<open>copy_watchers\<close>, however it ends.\<close>

lemma copy_watchers_run:
  assumes run: "copy_watchers n api src tgt apply_changes w0 = (out, st)"
  shows "copy_inv apply_changes tgt st
       \<and> (case out of
             Returned v \<Rightarrow> v = PyNone
           | Raised e \<Rightarrow> trace st \<noteq> [] \<and> raised_by (last (trace st)) = Some e
           | OutOfFuel \<Rightarrow> True)"
proof -
  let ?st0 = "\<lparr>world = w0, trace = [], issues_updated = 0, target_user_watching_keys = {}\<rparr>"
  obtain r1 w1 where u1: "api_user api src w0 = (r1, w1)" by (cases "api_user api src w0")
  show ?thesis
  proof (cases r1)
    case (Inl e)
    with run u1 have "out = Raised e" "st = emit (UserCall src (Inl e)) (?st0\<lparr>world := w1\<rparr>)"
      by (simp_all add: copy_watchers_def)
    then show ?thesis by (simp add: emit_def copy_inv_def)
  next
    case (Inr source_user)
    obtain r2 w2 where u2: "api_user api tgt w1 = (r2, w2)" by (cases "api_user api tgt w1")
    show ?thesis
    proof (cases r2)
      case (Inl e)
      with run u1 \<open>r1 = Inr source_user\<close> u2
      have "out = Raised e"
        "st = emit (UserCall tgt (Inl e))
                ((emit (UserCall src (Inr source_user)) (?st0\<lparr>world := w1\<rparr>))\<lparr>world := w2\<rparr>)"
        by (simp_all add: copy_watchers_def Let_def emit_def)
      then show ?thesis by (simp add: emit_def copy_inv_def)
    next
      case (Inr target_user)
      define st3 where
        "st3 = (emit (UserCall tgt (Inr target_user))
                  ((emit (UserCall src (Inr source_user)) (?st0\<lparr>world := w1\<rparr>))\<lparr>world := w2\<rparr>))
                 \<lparr>issues_updated := 0, target_user_watching_keys := {}\<rparr>"
      have inv3: "snapshot_inv st3" by (simp add: st3_def snapshot_inv_def emit_def)
      obtain out4 st4 where scan1:
        "iterate_jql_results n api (watching_query tgt) snapshot_step 0 st3 = (out4, st4)"
        by (cases "iterate_jql_results n api (watching_query tgt) snapshot_step 0 st3")
      from snapshot_scan_inv [OF inv3, where n = n and api = api
          and q = "watching_query tgt" and start = 0] scan1
      have inv4: "snapshot_inv st4" by simp
      obtain out5 st5 where scan2:
        "iterate_jql_results n api (watching_query src) (copy_step api apply_changes tgt) 0 st4
           = (out5, st5)"
        by (cases "iterate_jql_results n api (watching_query src)
                     (copy_step api apply_changes tgt) 0 st4")
      from copy_scan_inv [OF snapshot_inv_copy_inv [OF inv4, of apply_changes tgt],
          where n = n and api = api and q = "watching_query src" and start = 0] scan2
      have inv5: "copy_inv apply_changes tgt st5" by simp
      from run u1 \<open>r1 = Inr source_user\<close> u2 Inr scan1 scan2
      have res: "(out, st) =
          (case out4 of
             Raised e \<Rightarrow> (Raised e, st4)
           | OutOfFuel \<Rightarrow> (OutOfFuel, st4)
           | Returned u \<Rightarrow>
               (case out5 of
                  Returned u' \<Rightarrow> (Returned PyNone, st5)
                | Raised e \<Rightarrow> (Raised e, st5)
                | OutOfFuel \<Rightarrow> (OutOfFuel, st5)))"
        by (auto simp: copy_watchers_def st3_def Let_def emit_def split: outcome.splits)
      show ?thesis
      proof (cases out4)
        case (Raised e)
        with res snapshot_inv_copy_inv [OF inv4]
          iterate_raised [of n api "watching_query tgt" snapshot_step 0 st3 e st4] scan1
        show ?thesis by simp
      next
        case OutOfFuel
        with res snapshot_inv_copy_inv [OF inv4] show ?thesis by simp
      next
        case (Returned u)
        show ?thesis
        proof (cases out5)
          case (Returned u')
          with res \<open>out4 = Returned u\<close> inv5 show ?thesis by simp
        next
          case (Raised e)
          with res \<open>out4 = Returned u\<close> inv5
            iterate_raised [of n api "watching_query src" _ 0 st4 e st5] scan2
          show ?thesis by simp
        next
          case OutOfFuel
          with res \<open>out4 = Returned u\<close> inv5 show ?thesis by simp
        qed
      qed
    qed
  qed
qed

section \<open>Runs on the sample data\<close>

lemmas tracker_defs = tracker_api_def tracker_jql_def tracker_search_def tracker_matches_def
  tracker_myself_def tracker_user_def tracker_update_issue_def tracker_issue_add_watcher_def
  watching_query_def get_query_def limit_def mk_issue_def mk_user_def office_def guarded_office_def
  apply_payload_def set_field_def

lemmas handler_defs = remap_user_def copy_watchers_def remap_process_issue_def
  remap_update_issue_def copy_process_issue_def copy_step_def snapshot_step_def emit_def Let_def

section \<open>Dry run\<close>

text \<open>
  Claim C3. Without \<^verbatim>\<open>apply_changes\<close> (the dry run, the default) neither handler makes a
  mutating call, whatever the backend answers and however many issues match, at any point
  of the run: no \<^verbatim>\<open>update_issue\<close>, no \<^verbatim>\<open>issue_add_watcher\<close>. The counter of updated
  issues stays zero, and the count that \<^verbatim>\<open>remap_user\<close> reports is zero.
\<close>

theorem dry_run_sends_nothing:
  "(case remap_user n api src tgt seed False w of
      (out, st) \<Rightarrow>
        update_calls (trace st) = [] \<and> add_watcher_calls (trace st) = []
      \<and> issues_updated st = 0
      \<and> list_all (\<lambda>c. c = 0) (reported_counts (logged (trace st))))
   \<and> (case copy_watchers n' api' src' tgt' False w' of
        (out, st) \<Rightarrow>
          update_calls (trace st) = [] \<and> add_watcher_calls (trace st) = []
        \<and> issues_updated st = 0)"
proof (rule conjI)
  obtain out st where run: "remap_user n api src tgt seed False w = (out, st)"
    by (cases "remap_user n api src tgt seed False w")
  from remap_user_run [OF run] have
    u: "update_calls (trace st) = []" and a: "add_watcher_calls (trace st) = []"
    and c: "issues_updated st = length (filter succeeded (update_calls (trace st)))"
    and r: "(case out of
             Returned v \<Rightarrow> reported_counts (logged (trace st)) = [issues_updated st]
           | Raised e \<Rightarrow> reported_counts (logged (trace st)) = []
           | OutOfFuel \<Rightarrow> reported_counts (logged (trace st)) = [])"
    by (simp_all split: outcome.splits)
  from u c have z: "issues_updated st = 0" by simp
  from r z have "list_all (\<lambda>c. c = 0) (reported_counts (logged (trace st)))"
    by (cases out) simp_all
  with u a z show "case remap_user n api src tgt seed False w of
      (out, st) \<Rightarrow>
        update_calls (trace st) = [] \<and> add_watcher_calls (trace st) = []
      \<and> issues_updated st = 0
      \<and> list_all (\<lambda>c. c = 0) (reported_counts (logged (trace st)))"
    by (simp add: run)
next
  obtain out st where run: "copy_watchers n' api' src' tgt' False w' = (out, st)"
    by (cases "copy_watchers n' api' src' tgt' False w'")
  from copy_watchers_run [OF run] have "copy_inv False tgt' st" by simp
  then show "case copy_watchers n' api' src' tgt' False w' of
        (out, st) \<Rightarrow>
          update_calls (trace st) = [] \<and> add_watcher_calls (trace st) = []
        \<and> issues_updated st = 0"
    by (simp add: run copy_inv_def)
qed

theorem dry_run_sends_nothing_witness:
  "((case remap_user (Suc 0) tracker_api ''alice'' ''bob'' None False office of
      (out, st) \<Rightarrow>
        update_calls (trace st) = [] \<and> add_watcher_calls (trace st) = []
      \<and> issues_updated st = 0
      \<and> list_all (\<lambda>c. c = 0) (reported_counts (logged (trace st))))
    \<and> (case copy_watchers (Suc 0) tracker_api ''alice'' ''bob'' False office of
        (out, st) \<Rightarrow>
          update_calls (trace st) = [] \<and> add_watcher_calls (trace st) = []
        \<and> issues_updated st = 0))
   \<and> logged (trace (snd (remap_user (Suc 0) tracker_api ''alice'' ''bob'' None False office))) =
       [DryRunUpdate ''A''
          \<lparr>payload_fields =
             [(''creator'', \<lparr>accountId = ''bob''\<rparr>), (''assignee'', \<lparr>accountId = ''bob''\<rparr>),
              (''reporter'', \<lparr>accountId = ''bob''\<rparr>)]\<rparr>,
        DryRunUpdate ''C'' \<lparr>payload_fields = [(''assignee'', \<lparr>accountId = ''bob''\<rparr>)]\<rparr>,
        UpdatedCount 0]
   \<and> logged (trace (snd (copy_watchers (Suc 0) tracker_api ''alice'' ''bob'' False office))) =
       [DryRunAddWatcher ''bob'' ''A'', DryRunAddWatcher ''bob'' ''C'']"
proof -
  note inst = dry_run_sends_nothing [where n = "Suc 0" and api = tracker_api and src = "''alice''"
      and tgt = "''bob''" and seed = None and w = office and n' = "Suc 0" and api' = tracker_api
      and src' = "''alice''" and tgt' = "''bob''" and w' = office]
  have l1: "logged (trace (snd (remap_user (Suc 0) tracker_api ''alice'' ''bob'' None False office))) =
       [DryRunUpdate ''A''
          \<lparr>payload_fields =
             [(''creator'', \<lparr>accountId = ''bob''\<rparr>), (''assignee'', \<lparr>accountId = ''bob''\<rparr>),
              (''reporter'', \<lparr>accountId = ''bob''\<rparr>)]\<rparr>,
        DryRunUpdate ''C'' \<lparr>payload_fields = [(''assignee'', \<lparr>accountId = ''bob''\<rparr>)]\<rparr>,
        UpdatedCount 0]"
    by (simp add: tracker_defs handler_defs)
  have l2: "logged (trace (snd (copy_watchers (Suc 0) tracker_api ''alice'' ''bob'' False office))) =
       [DryRunAddWatcher ''bob'' ''A'', DryRunAddWatcher ''bob'' ''C'']"
    by (simp add: tracker_defs handler_defs)
  show ?thesis by (rule conjI [OF inst conjI [OF l1 l2]])
qed

section \<open>Failed mutations\<close>



section \<open>What the remap handler returns\<close>

text \<open>
  Claim C7, amended. \<^verbatim>\<open>remap_user\<close> returns \<^verbatim>\<open>None\<close>. The count of issues updated is what
  it logs, as its last action before it returns: that count is the number of update calls
  of the run that succeeded. A run that an exception leaves, or that does not end, logs no
  count.
\<close>

theorem remap_user_reports_count:
  "case remap_user n api src tgt seed apply_changes w of
     (out, st) \<Rightarrow>
       (case out of
          Returned v \<Rightarrow>
            v = PyNone \<and> trace st \<noteq> []
          \<and> last (trace st) =
              Log (UpdatedCount (length (filter succeeded (update_calls (trace st)))))
          \<and> reported_counts (logged (trace st)) =
              [length (filter succeeded (update_calls (trace st)))]
        | Raised e \<Rightarrow> reported_counts (logged (trace st)) = []
        | OutOfFuel \<Rightarrow> reported_counts (logged (trace st)) = [])"
proof -
  obtain out st where run: "remap_user n api src tgt seed apply_changes w = (out, st)"
    by (cases "remap_user n api src tgt seed apply_changes w")
  from remap_user_run [OF run] show ?thesis
    unfolding run by (simp split: outcome.splits)
qed

text \<open>Two updates succeed and the handler returns \<^verbatim>\<open>None\<close>, not 2.\<close>

theorem remap_user_returns_none_counterexample:
  "fst (remap_user (Suc 0) tracker_api ''alice'' ''bob'' None True office) = Returned PyNone
   \<and> length (filter succeeded
        (update_calls (trace (snd (remap_user (Suc 0) tracker_api ''alice'' ''bob'' None True
                                     office))))) = 2
   \<and> fst (remap_user (Suc 0) tracker_api ''alice'' ''bob'' None True office) \<noteq> Returned (PyInt 2)"
  by (simp add: tracker_defs handler_defs succeeded_def)

theorem remap_user_reports_count_witness:
  "(case remap_user (Suc 0) tracker_api ''alice'' ''bob'' None True office of
     (out, st) \<Rightarrow>
       (case out of
          Returned v \<Rightarrow>
            v = PyNone \<and> trace st \<noteq> []
          \<and> last (trace st) =
              Log (UpdatedCount (length (filter succeeded (update_calls (trace st)))))
          \<and> reported_counts (logged (trace st)) =
              [length (filter succeeded (update_calls (trace st)))]
        | Raised e \<Rightarrow> reported_counts (logged (trace st)) = []
        | OutOfFuel \<Rightarrow> reported_counts (logged (trace st)) = []))
   \<and> fst (remap_user (Suc 0) tracker_api ''alice'' ''bob'' None True office) = Returned PyNone
   \<and> logged (trace (snd (remap_user (Suc 0) tracker_api ''alice'' ''bob'' None True office))) =
       [UpdatedCount 2]"
proof -
  note inst = remap_user_reports_count [where n = "Suc 0" and api = tracker_api
      and src = "''alice''" and tgt = "''bob''" and seed = None and apply_changes = True
      and w = office]
  have a: "fst (remap_user (Suc 0) tracker_api ''alice'' ''bob'' None True office) = Returned PyNone"
    by (simp add: tracker_defs handler_defs)
  have b: "logged (trace (snd (remap_user (Suc 0) tracker_api ''alice'' ''bob'' None True office))) =
       [UpdatedCount 2]"
    by (simp add: tracker_defs handler_defs)
  show ?thesis by (rule conjI [OF inst conjI [OF a b]])
qed

section \<open>The two scans of the watcher copy handler\<close>

text \<open>The invariant rule again, for a property that depends on what the backend answers.\<close>

lemma iterate_invariant_api:
  assumes init: "P st"
    and step: "\<And>i s. P s \<Longrightarrow> P (body i (emit (Yield i) s))"
    and fetch: "\<And>s x r w. P s \<Longrightarrow> api_jql api q x limit (world s) = (r, w) \<Longrightarrow>
                  P (emit (JqlCall q x limit r) (s\<lparr>world := w\<rparr>))"
  shows "P (snd (iterate_jql_results n api q body start st))"
  using init
proof (induction n arbitrary: start st)
  case 0
  then show ?case by simp
next
  case (Suc n)
  obtain r w where call: "api_jql api q start limit (world st) = (r, w)"
    by (cases "api_jql api q start limit (world st)")
  show ?case
  proof (cases r)
    case (Inl e)
    from fetch [OF Suc.prems call]
    have "P (emit (JqlCall q start limit (Inl e)) (st\<lparr>world := w\<rparr>))"
      unfolding Inl .
    with call Inl show ?thesis by simp
  next
    case (Inr p)
    let ?st2 = "fold (\<lambda>i s. body i (emit (Yield i) s)) p
                  (emit (JqlCall q start limit (Inr p)) (st\<lparr>world := w\<rparr>))"
    from fetch [OF Suc.prems call]
    have p1: "P (emit (JqlCall q start limit (Inr p)) (st\<lparr>world := w\<rparr>))"
      unfolding Inr .
    have "P ?st2" by (rule fold_invariant [where P = P and body = body, OF p1]) (rule step)
    with call Inr Suc.IH [of ?st2] show ?thesis by (simp add: Let_def)
  qed
qed

text \<open>How \<^verbatim>\<open>copy_watchers\<close> runs: it stops at a user lookup, or it scans.\<close>

lemma copy_watchers_cases:
  assumes run: "copy_watchers n api src tgt apply_changes w0 = (out, st)"
  shows "(\<exists>e. out = Raised e \<and> add_watcher_calls (trace st) = []
             \<and> (fst (api_user api src w0) = Inl e \<and> world st = snd (api_user api src w0)
                \<or> fst (api_user api tgt (snd (api_user api src w0))) = Inl e
                  \<and> world st = snd (api_user api tgt (snd (api_user api src w0)))))
       \<or> (\<exists>st3 out4 st4.
             snapshot_inv st3 \<and> target_user_watching_keys st3 = {}
           \<and> world st3 = snd (api_user api tgt (snd (api_user api src w0)))
           \<and> iterate_jql_results n api (watching_query tgt) snapshot_step 0 st3 = (out4, st4)
           \<and> (case out4 of
                 Returned u \<Rightarrow>
                   (\<exists>out5. iterate_jql_results n api (watching_query src)
                              (copy_step api apply_changes tgt) 0 st4 = (out5, st)
                          \<and> out = (case out5 of Returned u' \<Rightarrow> Returned PyNone
                                   | Raised e \<Rightarrow> Raised e | OutOfFuel \<Rightarrow> OutOfFuel))
               | Raised e \<Rightarrow> out = Raised e \<and> st = st4
               | OutOfFuel \<Rightarrow> out = OutOfFuel \<and> st = st4))"
proof -
  let ?st0 = "\<lparr>world = w0, trace = [], issues_updated = 0, target_user_watching_keys = {}\<rparr>"
  obtain r1 w1 where u1: "api_user api src w0 = (r1, w1)" by (cases "api_user api src w0")
  show ?thesis
  proof (cases r1)
    case (Inl e)
    with run u1 have "out = Raised e" "st = emit (UserCall src (Inl e)) (?st0\<lparr>world := w1\<rparr>)"
      by (simp_all add: copy_watchers_def)
    with u1 Inl show ?thesis by (simp add: emit_def)
  next
    case (Inr source_user)
    obtain r2 w2 where u2: "api_user api tgt w1 = (r2, w2)" by (cases "api_user api tgt w1")
    show ?thesis
    proof (cases r2)
      case (Inl e)
      with run u1 \<open>r1 = Inr source_user\<close> u2
      have "out = Raised e"
        "st = emit (UserCall tgt (Inl e))
                ((emit (UserCall src (Inr source_user)) (?st0\<lparr>world := w1\<rparr>))\<lparr>world := w2\<rparr>)"
        by (simp_all add: copy_watchers_def Let_def emit_def)
      with u1 u2 Inl show ?thesis by (simp add: emit_def)
    next
      case (Inr target_user)
      define st3 where
        "st3 = (emit (UserCall tgt (Inr target_user))
                  ((emit (UserCall src (Inr source_user)) (?st0\<lparr>world := w1\<rparr>))\<lparr>world := w2\<rparr>))
                 \<lparr>issues_updated := 0, target_user_watching_keys := {}\<rparr>"
      have inv3: "snapshot_inv st3" and k3: "target_user_watching_keys st3 = {}"
        and w3: "world st3 = snd (api_user api tgt (snd (api_user api src w0)))"
        by (simp_all add: st3_def snapshot_inv_def emit_def u1 u2)
      obtain out4 st4 where scan1:
        "iterate_jql_results n api (watching_query tgt) snapshot_step 0 st3 = (out4, st4)"
        by (cases "iterate_jql_results n api (watching_query tgt) snapshot_step 0 st3")
      obtain out5 st5 where scan2:
        "iterate_jql_results n api (watching_query src)
           (copy_step api apply_changes tgt) 0 st4 = (out5, st5)"
        by (cases "iterate_jql_results n api (watching_query src)
                     (copy_step api apply_changes tgt) 0 st4")
      have unfolded: "copy_watchers n api src tgt apply_changes w0 =
          (case out4 of
             Raised e \<Rightarrow> (Raised e, st4)
           | OutOfFuel \<Rightarrow> (OutOfFuel, st4)
           | Returned u \<Rightarrow>
               (case out5 of
                  Returned u' \<Rightarrow> (Returned PyNone, st5)
                | Raised e \<Rightarrow> (Raised e, st5)
                | OutOfFuel \<Rightarrow> (OutOfFuel, st5)))"
        using u1 \<open>r1 = Inr source_user\<close> u2 Inr scan1 scan2
        by (simp add: copy_watchers_def st3_def Let_def emit_def split: outcome.splits)
      have tail: "case out4 of
                 Returned u \<Rightarrow>
                   (\<exists>out5. iterate_jql_results n api (watching_query src)
                              (copy_step api apply_changes tgt) 0 st4 = (out5, st)
                          \<and> out = (case out5 of Returned u' \<Rightarrow> Returned PyNone
                                   | Raised e \<Rightarrow> Raised e | OutOfFuel \<Rightarrow> OutOfFuel))
               | Raised e \<Rightarrow> out = Raised e \<and> st = st4
               | OutOfFuel \<Rightarrow> out = OutOfFuel \<and> st = st4"
      proof (cases out4)
        case (Returned u)
        with run unfolded have "st = st5"
          "out = (case out5 of Returned u' \<Rightarrow> Returned PyNone
                  | Raised e \<Rightarrow> Raised e | OutOfFuel \<Rightarrow> OutOfFuel)"
          by (cases out5; simp)+
        with scan2 Returned show ?thesis by simp
      next
        case (Raised e)
        with run unfolded show ?thesis by simp
      next
        case OutOfFuel
        with run unfolded show ?thesis by simp
      qed
      show ?thesis
        by (rule disjI2, rule exI [of _ st3], rule exI [of _ out4], rule exI [of _ st4])
           (simp only: inv3 k3 w3 scan1 tail simp_thms)
    qed
  qed
qed


text \<open>The snapshot scan only adds keys, and leaves a backend alone whose searches do.\<close>

lemma fold_snapshot_step:
  "world (fold (\<lambda>i s. snapshot_step i (emit (Yield i) s)) p st) = world st
   \<and> target_user_watching_keys (fold (\<lambda>i s. snapshot_step i (emit (Yield i) s)) p st) =
       target_user_watching_keys st \<union> key ` set p"
  by (induction p arbitrary: st) (auto simp: snapshot_step_def emit_def)

lemma snapshot_keys_mono:
  "target_user_watching_keys st
     \<subseteq> target_user_watching_keys (snd (iterate_jql_results n api q snapshot_step s st))"
  by (rule iterate_invariant
        [where P = "\<lambda>x. target_user_watching_keys st \<subseteq> target_user_watching_keys x"])
     (auto simp: snapshot_step_def emit_def)

lemma snapshot_world:
  assumes ro: "\<forall>q s l w. snd (api_jql api q s l w) = w"
  shows "world (snd (iterate_jql_results n api q snapshot_step s st)) = world st"
proof (rule iterate_invariant_api [where P = "\<lambda>x. world x = world st"])
  show "world st = world st" by simp
next
  fix i and x :: "('a, 'b) watching_scheme"
  assume "world x = world st"
  then show "world (snapshot_step i (emit (Yield i) x)) = world st"
    by (simp add: snapshot_step_def emit_def)
next
  fix x :: "('a, 'b) watching_scheme" and y r w
  assume "world x = world st" and "api_jql api q y limit (world x) = (r, w)"
  with ro [rule_format, of q y limit "world x"]
  show "world (emit (JqlCall q y limit r) (x\<lparr>world := w\<rparr>)) = world st"
    by (simp add: emit_def)
qed

text \<open>The copy scan passes over issues whose keys are all in the snapshot set.\<close>

lemma fold_copy_step_skip:
  "key ` set p \<subseteq> target_user_watching_keys st \<Longrightarrow>
   fold (\<lambda>i s. copy_step api apply_changes tgt i (emit (Yield i) s)) p st =
     st\<lparr>trace := trace st @ map Yield p\<rparr>"
  by (induction p arbitrary: st) (simp_all add: copy_step_def emit_def)

lemma add_watcher_calls_map_Yield: "add_watcher_calls (map Yield p) = []"
  by (induction p) simp_all

text \<open>
  On a backend that its searches leave alone, a copy scan with the query of a snapshot
  scan that returned, started in the same remote state, sees the same pages, so every key
  is in the snapshot set and nothing is added.
\<close>

lemma twin_scan:
  assumes ro: "\<forall>q s l w. snd (api_jql api q s l w) = w"
  shows "iterate_jql_results n api q snapshot_step s st1 = (Returned u, st1') \<Longrightarrow>
     world st2 = world st1 \<Longrightarrow>
     target_user_watching_keys st1' \<subseteq> target_user_watching_keys st2 \<Longrightarrow>
     add_watcher_calls (trace (snd (iterate_jql_results n api q (copy_step api apply_changes tgt) s st2)))
       = add_watcher_calls (trace st2)
     \<and> world (snd (iterate_jql_results n api q (copy_step api apply_changes tgt) s st2)) = world st2"
proof (induction n arbitrary: s st1 st2)
  case 0
  then show ?case by simp
next
  case (Suc n)
  obtain r w where call: "api_jql api q s limit (world st1) = (r, w)"
    by (cases "api_jql api q s limit (world st1)")
  from ro [rule_format, of q s limit "world st1"] call have w: "w = world st1" by simp
  show ?case
  proof (cases r)
    case (Inl e)
    with call Suc.prems(1) show ?thesis by simp
  next
    case (Inr p)
    define st1a where
      "st1a = fold (\<lambda>i s. snapshot_step i (emit (Yield i) s)) p
                (emit (JqlCall q s limit (Inr p)) (st1\<lparr>world := w\<rparr>))"
    define st2a where
      "st2a = (emit (JqlCall q s limit (Inr p)) (st2\<lparr>world := w\<rparr>))
                \<lparr>trace := trace (emit (JqlCall q s limit (Inr p)) (st2\<lparr>world := w\<rparr>)) @ map Yield p\<rparr>"
    have k1a: "key ` set p \<subseteq> target_user_watching_keys st1a"
      and w1a: "world st1a = w"
      using fold_snapshot_step [of p "emit (JqlCall q s limit (Inr p)) (st1\<lparr>world := w\<rparr>)"]
      by (auto simp: st1a_def emit_def)
    have sub: "target_user_watching_keys st1a \<subseteq> target_user_watching_keys st1'"
    proof (cases "length p < limit")
      case True
      with call Inr Suc.prems(1) show ?thesis by (simp add: st1a_def Let_def)
    next
      case False
      with call Inr Suc.prems(1)
      have "iterate_jql_results n api q snapshot_step (s + length p) st1a = (Returned u, st1')"
        by (simp add: st1a_def Let_def)
      with snapshot_keys_mono [of st1a n api q "s + length p"] show ?thesis by simp
    qed
    with k1a Suc.prems(3) have kp: "key ` set p \<subseteq> target_user_watching_keys st2" by blast
    have fold2: "fold (\<lambda>i s. copy_step api apply_changes tgt i (emit (Yield i) s)) p
                   (emit (JqlCall q s limit (Inr p)) (st2\<lparr>world := w\<rparr>)) = st2a"
      unfolding st2a_def by (rule fold_copy_step_skip) (use kp in \<open>simp add: emit_def\<close>)
    have a2a: "add_watcher_calls (trace st2a) = add_watcher_calls (trace st2)"
      and w2a: "world st2a = world st2"
      and k2a: "target_user_watching_keys st2a = target_user_watching_keys st2"
      by (simp_all add: st2a_def emit_def reader_append add_watcher_calls_map_Yield w Suc.prems(2))
    have call2: "api_jql api q s limit (world st2) = (Inr p, w)"
      using call Inr Suc.prems(2) by simp
    show ?thesis
    proof (cases "length p < limit")
      case True
      with call2 fold2 a2a w2a show ?thesis by (simp add: Let_def)
    next
      case False
      with call Inr Suc.prems(1)
      have rest: "iterate_jql_results n api q snapshot_step (s + length p) st1a = (Returned u, st1')"
        by (simp add: st1a_def Let_def)
      have "world st2a = world st1a" using w2a w1a w Suc.prems(2) by simp
      moreover have "target_user_watching_keys st1' \<subseteq> target_user_watching_keys st2a"
        using Suc.prems(3) k2a by simp
      ultimately have
        "add_watcher_calls (trace (snd (iterate_jql_results n api q
             (copy_step api apply_changes tgt) (s + length p) st2a)))
           = add_watcher_calls (trace st2a)
         \<and> world (snd (iterate_jql_results n api q
             (copy_step api apply_changes tgt) (s + length p) st2a)) = world st2a"
        by (rule Suc.IH [OF rest])
      with False call2 fold2 a2a w2a show ?thesis by (simp add: Let_def)
    qed
  qed
qed


text \<open>
  Claim C10. On a backend whose state the searches leave as it is, \<^verbatim>\<open>copy_watchers\<close> with
  the source id equal to the target id makes no add-watcher call (with \<^verbatim>\<open>apply_changes\<close>
  or without): the snapshot query and the copy query are the same string, so every issue
  the copy scan yields has its key in the snapshot set and is skipped.
\<close>

theorem copy_watchers_same_user_adds_nothing:
  assumes ro: "\<forall>q s l w. snd (api_jql api q s l w) = w"
  shows "add_watcher_calls (trace (snd (copy_watchers n api u u apply_changes w0))) = []"
proof -
  obtain out st where run: "copy_watchers n api u u apply_changes w0 = (out, st)"
    by (cases "copy_watchers n api u u apply_changes w0")
  from copy_watchers_cases [OF run] have "add_watcher_calls (trace st) = []"
  proof (elim disjE exE conjE)
    fix e
    assume "add_watcher_calls (trace st) = []"
    then show ?thesis .
  next
    fix st3 out4 st4
    assume inv3: "snapshot_inv st3"
      and scan1: "iterate_jql_results n api (watching_query u) snapshot_step 0 st3 = (out4, st4)"
      and tail: "case out4 of
                 Returned x \<Rightarrow>
                   (\<exists>out5. iterate_jql_results n api (watching_query u)
                              (copy_step api apply_changes u) 0 st4 = (out5, st)
                          \<and> out = (case out5 of Returned u' \<Rightarrow> Returned PyNone
                                   | Raised e \<Rightarrow> Raised e | OutOfFuel \<Rightarrow> OutOfFuel))
               | Raised e \<Rightarrow> out = Raised e \<and> st = st4
               | OutOfFuel \<Rightarrow> out = OutOfFuel \<and> st = st4"
    from snapshot_scan_inv [OF inv3, where n = n and api = api and q = "watching_query u"
        and start = 0] scan1
    have a4: "add_watcher_calls (trace st4) = []" by (simp add: snapshot_inv_def)
    show ?thesis
    proof (cases out4)
      case (Returned x)
      with tail obtain out5 where scan2:
        "iterate_jql_results n api (watching_query u) (copy_step api apply_changes u) 0 st4
           = (out5, st)"
        by auto
      from snapshot_world [OF ro, of n "watching_query u" 0 st3] scan1
      have w4: "world st4 = world st3" by simp
      from twin_scan [OF ro, of n "watching_query u" 0 st3 x st4 st4 apply_changes u]
        scan1 Returned w4 scan2 a4
      show ?thesis by simp
    next
      case (Raised e)
      with tail a4 show ?thesis by simp
    next
      case OutOfFuel
      with tail a4 show ?thesis by simp
    qed
  qed
  with run show ?thesis by simp
qed

theorem copy_watchers_same_user_adds_nothing_witness:
  "(\<forall>q s l w. snd (api_jql tracker_api q s l w) = w)
   \<and> add_watcher_calls
       (trace (snd (copy_watchers (Suc 0) tracker_api ''alice'' ''alice'' True office))) = []
   \<and> fst (copy_watchers (Suc 0) tracker_api ''alice'' ''alice'' True office) = Returned PyNone
   \<and> map key (yielded (trace (snd (copy_watchers (Suc 0) tracker_api ''alice'' ''alice'' True office))))
       = [''A'', ''B'', ''C'', ''A'', ''B'', ''C'']"
proof -
  have ro: "\<forall>q s l w. snd (api_jql tracker_api q s l w) = w"
    by (simp add: tracker_api_def tracker_jql_def)
  note inst = copy_watchers_same_user_adds_nothing [where api = tracker_api and n = "Suc 0"
      and u = "''alice''" and apply_changes = True and ?w0.0 = office, OF ro]
  have a: "fst (copy_watchers (Suc 0) tracker_api ''alice'' ''alice'' True office) = Returned PyNone"
    by (simp add: tracker_defs handler_defs)
  have b: "map key (yielded (trace (snd (copy_watchers (Suc 0) tracker_api ''alice'' ''alice'' True office))))
       = [''A'', ''B'', ''C'', ''A'', ''B'', ''C'']"
    by (simp add: tracker_defs handler_defs)
  show ?thesis by (rule conjI [OF ro conjI [OF inst conjI [OF a b]]])
qed

section \<open>The reference tracker: facts\<close>

lemma watching_query_inj: "watching_query a = watching_query b \<longleftrightarrow> a = b"
  by (simp add: watching_query_def)

lemma watching_query_not_all: "watching_query a \<noteq> get_query None None"
  by (simp add: watching_query_def get_query_def)

lemma tracker_matches_watching:
  "tracker_matches (watching_query u) iw \<longleftrightarrow> u \<in> set (snd iw)"
  by (auto simp: tracker_matches_def watching_query_inj watching_query_not_all)

lemma tracker_search_watching:
  "tracker_search (watching_query u) t =
     map fst (filter (\<lambda>iw. u \<in> set (snd iw)) (tracker_issues t))"
  by (simp add: tracker_search_def tracker_matches_watching cong: filter_cong)

lemma watched_keys_search: "key ` set (tracker_search (watching_query u) t) = watched_keys u t"
  by (simp add: tracker_search_watching watched_keys_def image_image)

lemma tracker_api_jql:
  "api_jql tracker_api q s l t = (Inr (take l (drop s (tracker_search q t))), t)"
  by (simp add: tracker_api_def tracker_jql_def)

lemma tracker_api_user: "snd (api_user tracker_api a t) = t"
  by (simp add: tracker_api_def tracker_user_def split: option.splits)

lemma watched_keys_iff:
  "x \<in> watched_keys a t \<longleftrightarrow>
     (\<exists>iw \<in> set (tracker_issues t). a \<in> set (snd iw) \<and> x = key (fst iw))"
  by (auto simp: watched_keys_def)

text \<open>What an add-watcher call does to the tracker.\<close>

lemma tracker_add_watcher_rejected:
  "api_issue_add_watcher tracker_api k u t = (Some e, t') \<Longrightarrow> t' = t"
  by (auto simp: tracker_api_def tracker_issue_add_watcher_def split: if_splits)

lemma tracker_add_watcher_issues:
  "api_issue_add_watcher tracker_api k u t = (None, t') \<Longrightarrow>
   tracker_issues t' =
     map (\<lambda>iw. if key (fst iw) = k then (fst iw, List.insert u (snd iw)) else iw) (tracker_issues t)"
  by (auto simp: tracker_api_def tracker_issue_add_watcher_def split: if_splits)


lemma tracker_add_watcher_other:
  assumes "api_issue_add_watcher tracker_api k u t = (r, t')" and "a \<noteq> u"
  shows "tracker_search (watching_query a) t' = tracker_search (watching_query a) t"
proof (cases r)
  case None
  have "map fst (filter (\<lambda>iw. a \<in> set (snd iw))
          (map (\<lambda>iw. if key (fst iw) = k then (fst iw, List.insert u (snd iw)) else iw) xs)) =
        map fst (filter (\<lambda>iw. a \<in> set (snd iw)) xs)" for xs
    using \<open>a \<noteq> u\<close> by (induction xs) auto
  with tracker_add_watcher_issues [OF assms(1) [unfolded None]] show ?thesis
    by (simp add: tracker_search_watching)
next
  case (Some e)
  with assms tracker_add_watcher_rejected show ?thesis by blast
qed



lemma tracker_add_watcher_upper:
  assumes "api_issue_add_watcher tracker_api k u t = (r, t')"
  shows "watched_keys a t' \<subseteq> insert k (watched_keys a t)"
proof (cases r)
  case None
  let ?f = "\<lambda>iw. if key (fst iw) = k then (fst iw, List.insert u (snd iw)) else iw"
  note iss = tracker_add_watcher_issues [OF assms [unfolded None]]
  show ?thesis
  proof
    fix x
    assume "x \<in> watched_keys a t'"
    then obtain iw where iw: "iw \<in> set (tracker_issues t)" "a \<in> set (snd (?f iw))"
        "x = key (fst (?f iw))"
      by (auto simp: watched_keys_iff iss)
    show "x \<in> insert k (watched_keys a t)"
    proof (cases "key (fst iw) = k")
      case True
      with iw show ?thesis by simp
    next
      case False
      with iw have "a \<in> set (snd iw)" "x = key (fst iw)" by simp_all
      with iw(1) have "x \<in> watched_keys a t" unfolding watched_keys_iff by blast
      then show ?thesis by simp
    qed
  qed
next
  case (Some e)
  with assms tracker_add_watcher_rejected show ?thesis by blast
qed

lemma tracker_search_distinct:
  "distinct (map (key \<circ> fst) (tracker_issues t)) \<Longrightarrow> distinct (map key (tracker_search q t))"
  by (simp add: tracker_search_def distinct_map_filter)

section \<open>A scan of the reference tracker\<close>

text \<open>
  One page: the consumer is called on the next issues of the search result, in order, and
  knows at each call which issues were yielded before.
\<close>

lemma fold_scan:
  assumes step: "\<And>s k. P s \<Longrightarrow> k < length L \<Longrightarrow> yielded (trace s) = Y @ take k L \<Longrightarrow>
                   P (body (L ! k) (emit (Yield (L ! k)) s))"
    and quiet: "\<And>i s. yielded (trace (body i s)) = yielded (trace s)"
  shows "P s \<Longrightarrow> yielded (trace s) = Y @ take a L \<Longrightarrow> a + m \<le> length L \<Longrightarrow>
     P (fold (\<lambda>i s. body i (emit (Yield i) s)) (take m (drop a L)) s)
   \<and> yielded (trace (fold (\<lambda>i s. body i (emit (Yield i) s)) (take m (drop a L)) s))
       = Y @ take (a + m) L"
proof (induction m arbitrary: a s)
  case 0
  then show ?case by simp
next
  case (Suc m)
  from Suc.prems(3) have a: "a < length L" by simp
  let ?s1 = "body (L ! a) (emit (Yield (L ! a)) s)"
  have p1: "P ?s1" by (rule step [OF Suc.prems(1) a Suc.prems(2)])
  have y1: "yielded (trace ?s1) = Y @ take (Suc a) L"
    using Suc.prems(2) a by (simp add: quiet emit_def yielded_append take_Suc_conv_app_nth)
  have split: "take (Suc m) (drop a L) = L ! a # take m (drop (Suc a) L)"
    using a by (simp add: Cons_nth_drop_Suc [symmetric])
  from Suc.IH [OF p1 y1] Suc.prems(3) show ?case by (simp add: split)
qed

text \<open>
  The whole loop on the reference tracker, while the consumer keeps the search result as
  it is: no fetch raises, what is yielded is a prefix of the search result, and all of it
  when the loop returns.
\<close>

lemma tracker_scan:
  assumes search: "\<And>s. P s \<Longrightarrow> tracker_search q (world s) = L"
    and fetch: "\<And>s x r. P s \<Longrightarrow> P (emit (JqlCall q x limit r) s)"
    and step: "\<And>s k. P s \<Longrightarrow> k < length L \<Longrightarrow> yielded (trace s) = Y @ take k L \<Longrightarrow>
                   P (body (L ! k) (emit (Yield (L ! k)) s))"
    and quiet: "\<And>i s. yielded (trace (body i s)) = yielded (trace s)"
  shows "P st \<Longrightarrow> yielded (trace st) = Y @ take start L \<Longrightarrow>
     iterate_jql_results n tracker_api q body start st = (out, st') \<Longrightarrow>
     P st' \<and> (\<forall>e. out \<noteq> Raised e) \<and> (\<exists>k. yielded (trace st') = Y @ take k L)
   \<and> (out = Returned () \<longrightarrow> yielded (trace st') = Y @ L)"
proof (induction n arbitrary: start st)
  case 0
  then show ?case by auto
next
  case (Suc n)
  define m where "m = min limit (length L - start)"
  define p where "p = take limit (drop start L)"
  define a where "a = min start (length L)"
  have pm: "p = take m (drop a L)" and len: "length p = m" and am: "a + m \<le> length L"
    by (auto simp: p_def m_def a_def min_def)
  have ya: "Y @ take start L = Y @ take a L" by (simp add: a_def min_def)
  define st1 where "st1 = emit (JqlCall q start limit (Inr p)) st"
  have call: "api_jql tracker_api q start limit (world st) = (Inr p, world st)"
    by (simp add: tracker_api_jql p_def search [OF Suc.prems(1)])
  have p1: "P st1" unfolding st1_def by (rule fetch [OF Suc.prems(1)])
  have y1: "yielded (trace st1) = Y @ take a L"
    using Suc.prems(2) ya by (simp add: st1_def emit_def yielded_append)
  define st2 where "st2 = fold (\<lambda>i s. body i (emit (Yield i) s)) p st1"
  have fs: "P (fold (\<lambda>i s. body i (emit (Yield i) s)) (take m (drop a L)) st1)
   \<and> yielded (trace (fold (\<lambda>i s. body i (emit (Yield i) s)) (take m (drop a L)) st1))
       = Y @ take (a + m) L"
  proof (rule fold_scan [where P = P and body = body and L = L and Y = Y and s = st1
        and a = a and m = m])
    fix s k
    assume "P s" "k < length L" "yielded (trace s) = Y @ take k L"
    then show "P (body (L ! k) (emit (Yield (L ! k)) s))" by (rule step)
  next
    fix i s
    show "yielded (trace (body i s)) = yielded (trace s)" by (rule quiet)
  qed (rule p1, rule y1, rule am)
  have p2: "P st2" and y2: "yielded (trace st2) = Y @ take (a + m) L"
    using fs unfolding st2_def pm by blast+
  have unfold: "iterate_jql_results (Suc n) tracker_api q body start st =
      (if m < limit then (Returned (), st2)
       else iterate_jql_results n tracker_api q body (start + m) st2)"
    by (simp add: call Let_def st2_def st1_def len)
  show ?case
  proof (cases "m < limit")
    case True
    then have "length L \<le> a + m" by (auto simp: m_def a_def min_def)
    with y2 have "yielded (trace st2) = Y @ L" by simp
    moreover from True unfold Suc.prems(3) have "out = Returned ()" "st' = st2" by simp_all
    ultimately show ?thesis using p2 by (auto intro: exI [of _ "length L"])
  next
    case False
    moreover have "0 < limit" by (simp add: limit_def)
    ultimately have "a = start" "start + m \<le> length L"
      by (auto simp: m_def a_def min_def split: if_splits)
    with y2 have y2': "yielded (trace st2) = Y @ take (start + m) L" by simp
    from False unfold Suc.prems(3)
    have "iterate_jql_results n tracker_api q body (start + m) st2 = (out, st')" by simp
    from Suc.IH [OF p2 y2' this] show ?thesis .
  qed
qed

section \<open>Add-watcher calls on the reference tracker\<close>

lemma after_adds_append: "after_adds (cs @ ds) t = after_adds ds (after_adds cs t)"
  by (induction cs t rule: after_adds.induct) simp_all

lemma fresh_adds_append:
  "fresh_adds (cs @ ds) t \<longleftrightarrow> fresh_adds cs t \<and> fresh_adds ds (after_adds cs t)"
  by (induction cs t rule: fresh_adds.induct) simp_all

lemma nth_not_in_take:
  assumes "distinct xs" and "k < length xs"
  shows "xs ! k \<notin> set (take k xs)"
proof
  assume "xs ! k \<in> set (take k xs)"
  then obtain j where j: "j < length (take k xs)" "take k xs ! j = xs ! k"
    by (auto simp: in_set_conv_nth)
  with assms have "j < k" "xs ! j = xs ! k" "j < length xs" by simp_all
  with assms show False by (simp add: nth_eq_iff_index_eq)
qed

lemma key_not_in_take:
  assumes "distinct (map key L)" and "k < length L"
  shows "key (L ! k) \<notin> key ` set (take k L)"
  using nth_not_in_take [of "map key L" k] assms by (simp add: take_map)

lemma tracker_api_add_watcher:
  "api_issue_add_watcher tracker_api k u t = tracker_issue_add_watcher k u t"
  by (simp add: tracker_api_def)

text \<open>The snapshot scan of the tracker collects the keys the target watches.\<close>

lemma snapshot_scan_tracker:
  assumes scan: "iterate_jql_results n tracker_api (watching_query tgt) snapshot_step 0 st3
                   = (out4, st4)"
    and y3: "yielded (trace st3) = []" and k3: "target_user_watching_keys st3 = {}"
  shows "world st4 = world st3
       \<and> (\<forall>e. out4 \<noteq> Raised e)
       \<and> (out4 = Returned () \<longrightarrow>
            target_user_watching_keys st4 = watched_keys tgt (world st3)
          \<and> yielded (trace st4) = tracker_search (watching_query tgt) (world st3))"
proof -
  define L where "L = tracker_search (watching_query tgt) (world st3)"
  define P where "P = (\<lambda>s :: (tracker, 'a) watching_scheme.
      world s = world st3 \<and> target_user_watching_keys s = key ` set (yielded (trace s)))"
  have res: "P st4 \<and> (\<forall>e. out4 \<noteq> Raised e) \<and> (\<exists>k. yielded (trace st4) = [] @ take k L)
      \<and> (out4 = Returned () \<longrightarrow> yielded (trace st4) = [] @ L)"
  proof (rule tracker_scan [where P = P and L = L and Y = "[]" and body = snapshot_step
        and q = "watching_query tgt" and start = 0 and st = st3 and n = n])
    fix s :: "(tracker, 'a) watching_scheme"
    assume "P s"
    then show "tracker_search (watching_query tgt) (world s) = L" by (simp add: P_def L_def)
  next
    fix s :: "(tracker, 'a) watching_scheme" and x r
    assume "P s"
    then show "P (emit (JqlCall (watching_query tgt) x limit r) s)"
      by (simp add: P_def emit_def yielded_append)
  next
    fix s :: "(tracker, 'a) watching_scheme" and k
    assume "P s"
    then show "P (snapshot_step (L ! k) (emit (Yield (L ! k)) s))"
      by (auto simp: P_def emit_def snapshot_step_def yielded_append)
  next
    fix i and s :: "(tracker, 'a) watching_scheme"
    show "yielded (trace (snapshot_step i s)) = yielded (trace s)"
      by (simp add: snapshot_step_def)
  next
    show "P st3" by (simp add: P_def y3 k3)
  next
    show "yielded (trace st3) = [] @ take 0 L" by (simp add: y3)
  next
    show "iterate_jql_results n tracker_api (watching_query tgt) snapshot_step 0 st3 = (out4, st4)"
      by (rule scan)
  qed
  then show ?thesis
    by (auto simp: P_def L_def watched_keys_search)
qed

text \<open>One step of the copy scan keeps the invariant.\<close>

lemma copy_step_yielded:
  "yielded (trace (copy_step api apply_changes tgt i s)) = yielded (trace s)"
  by (cases "api_issue_add_watcher api (key i) tgt (world s)")
     (auto simp: copy_step_def copy_process_issue_def emit_def yielded_append split: option.splits)

lemma copy_step_adding:
  assumes inv: "adding_inv t0 src tgt L Y s"
    and k: "k < length L"
    and y: "yielded (trace s) = Y @ take k L"
    and d: "distinct (map key L)"
  shows "adding_inv t0 src tgt L Y
           (copy_step tracker_api apply_changes tgt (L ! k) (emit (Yield (L ! k)) s))"
proof -
  let ?i = "L ! k"
  let ?K = "target_user_watching_keys s"
  from inv have w: "after_adds (add_watcher_calls (trace s)) t0 = world s"
    and f: "fresh_adds (add_watcher_calls (trace s)) t0"
    and l: "tracker_search (watching_query src) (world s) = L"
    and sub: "watched_keys tgt (world s) \<subseteq> ?K \<union> key ` set (take k L)"
    by (simp_all add: adding_inv_def y)
  have take_Suc: "take (Suc k) L = take k L @ [?i]"
    using k by (simp add: take_Suc_conv_app_nth)
  show ?thesis
  proof (cases "key ?i \<in> ?K \<or> \<not> apply_changes")
    case True
    with w f l sub show ?thesis
      by (auto simp: adding_inv_def copy_step_def copy_process_issue_def emit_def
          reader_append y)
  next
    case False
    then have nk: "key ?i \<notin> ?K" and ap: apply_changes by simp_all
    obtain r t' where call: "tracker_issue_add_watcher (key ?i) tgt (world s) = (r, t')"
      by (cases "tracker_issue_add_watcher (key ?i) tgt (world s)")
    then have call': "api_issue_add_watcher tracker_api (key ?i) tgt (world s) = (r, t')"
      by (simp add: tracker_api_add_watcher)
    define s' where "s' = copy_step tracker_api apply_changes tgt ?i (emit (Yield ?i) s)"
    have fresh: "key ?i \<notin> watched_keys tgt (world s)"
      using sub nk key_not_in_take [OF d k] by blast
    have tr: "add_watcher_calls (trace s') = add_watcher_calls (trace s) @ [(key ?i, tgt, r)]"
      and ws: "world s' = t'"
      and ks: "target_user_watching_keys s' = ?K"
      and ys: "yielded (trace s') = Y @ take (Suc k) L"
      using nk ap call' 
      by (cases r; simp add: s'_def copy_step_def copy_process_issue_def emit_def
            reader_append y take_Suc)+
    have c1: "after_adds (add_watcher_calls (trace s')) t0 = world s'"
      by (simp add: tr ws after_adds_append w call)
    have c2: "fresh_adds (add_watcher_calls (trace s')) t0"
      by (simp add: tr fresh_adds_append f w fresh)
    have c3: "tracker_search (watching_query src) (world s') = L"
    proof (cases "src = tgt")
      case True
      from k have "?i \<in> set (tracker_search (watching_query tgt) (world s))"
        by (simp add: l [unfolded True])
      then have "key ?i \<in> watched_keys tgt (world s)"
        unfolding watched_keys_search [symmetric] by (rule imageI)
      with fresh show ?thesis by simp
    next
      case False
      from tracker_add_watcher_other [OF call' False] l show ?thesis by (simp add: ws)
    qed
    have "watched_keys tgt t' \<subseteq> insert (key ?i) (watched_keys tgt (world s))"
      by (rule tracker_add_watcher_upper [OF call'])
    with sub have c4: "watched_keys tgt (world s') \<subseteq> ?K \<union> key ` set (take (Suc k) L)"
      by (auto simp: ws take_Suc)
    from c1 c2 c3 c4 show ?thesis
      unfolding s'_def [symmetric] by (simp add: adding_inv_def ks ys)
  qed
qed

text \<open>The copy scan of the tracker keeps the invariant.\<close>

lemma copy_scan_adding:
  assumes inv: "adding_inv t0 src tgt L (yielded (trace st4)) st4"
    and d: "distinct (map key L)"
    and scan: "iterate_jql_results n tracker_api (watching_query src)
                 (copy_step tracker_api apply_changes tgt) 0 st4 = (out5, st5)"
  shows "adding_inv t0 src tgt L (yielded (trace st4)) st5
       \<and> (\<forall>e. out5 \<noteq> Raised e)
       \<and> (out5 = Returned () \<longrightarrow> yielded (trace st5) = yielded (trace st4) @ L)"
proof -
  define Y where "Y = yielded (trace st4)"
  define P where "P = (adding_inv t0 src tgt L Y :: (tracker, 'a) watching_scheme \<Rightarrow> bool)"
  have res: "P st5 \<and> (\<forall>e. out5 \<noteq> Raised e) \<and> (\<exists>k. yielded (trace st5) = Y @ take k L)
      \<and> (out5 = Returned () \<longrightarrow> yielded (trace st5) = Y @ L)"
  proof (rule tracker_scan [where P = P and L = L and Y = Y
        and body = "copy_step tracker_api apply_changes tgt"
        and q = "watching_query src" and start = 0 and st = st4 and n = n])
    fix s :: "(tracker, 'a) watching_scheme"
    assume "P s"
    then show "tracker_search (watching_query src) (world s) = L"
      by (simp add: P_def adding_inv_def)
  next
    fix s :: "(tracker, 'a) watching_scheme" and x r
    assume "P s"
    then show "P (emit (JqlCall (watching_query src) x limit r) s)"
      by (simp add: P_def adding_inv_def emit_def reader_append)
  next
    fix s :: "(tracker, 'a) watching_scheme" and k
    assume "P s" "k < length L" "yielded (trace s) = Y @ take k L"
    then show "P (copy_step tracker_api apply_changes tgt (L ! k) (emit (Yield (L ! k)) s))"
      unfolding P_def by (rule copy_step_adding [OF _ _ _ d])
  next
    fix i and s :: "(tracker, 'a) watching_scheme"
    show "yielded (trace (copy_step tracker_api apply_changes tgt i s)) = yielded (trace s)"
      by (rule copy_step_yielded)
  next
    show "P st4" using inv by (simp add: P_def Y_def)
  next
    show "yielded (trace st4) = Y @ take 0 L" by (simp add: Y_def)
  next
    show "iterate_jql_results n tracker_api (watching_query src)
            (copy_step tracker_api apply_changes tgt) 0 st4 = (out5, st5)"
      by (rule scan)
  qed
  then show ?thesis by (simp add: P_def Y_def)
qed

section \<open>Requests and what they change\<close>

lemma set_creator_changes:
  assumes "accountId (creator (issue_fields i)) \<noteq> t"
  shows "set_field (''creator'', \<lparr>accountId = t\<rparr>) i \<noteq> i"
proof
  assume eq: "set_field (''creator'', \<lparr>accountId = t\<rparr>) i = i"
  from arg_cong [OF eq, of "\<lambda>j. accountId (creator (issue_fields j))"] assms
  show False by (simp add: set_field_def)
qed

lemma set_assignee_changes:
  assumes "map_option accountId (assignee (issue_fields i)) \<noteq> Some t"
  shows "set_field (''assignee'', \<lparr>accountId = t\<rparr>) i \<noteq> i"
proof
  assume eq: "set_field (''assignee'', \<lparr>accountId = t\<rparr>) i = i"
  from arg_cong [OF eq, of "\<lambda>j. map_option accountId (assignee (issue_fields j))"] assms
  show False by (simp add: set_field_def)
qed

lemma set_reporter_changes:
  assumes "map_option accountId (reporter (issue_fields i)) \<noteq> Some t"
  shows "set_field (''reporter'', \<lparr>accountId = t\<rparr>) i \<noteq> i"
proof
  assume eq: "set_field (''reporter'', \<lparr>accountId = t\<rparr>) i = i"
  from arg_cong [OF eq, of "\<lambda>j. map_option accountId (reporter (issue_fields j))"] assms
  show False by (simp add: set_field_def)
qed

text \<open>With different ids every field of the combined request changes the issue.\<close>

lemma combined_request_fields_change:
  assumes "src \<noteq> tgt"
  shows "list_all (\<lambda>f. set_field f i \<noteq> i) (payload_fields (combined_request src tgt i))"
  using assms set_creator_changes [of i tgt] set_assignee_changes [of i tgt]
    set_reporter_changes [of i tgt]
  by (auto simp: combined_request_def creator_matches_def assignee_matches_def
      reporter_matches_def)

text \<open>With no matching field the combined request is empty and changes nothing.\<close>

lemma combined_request_empty:
  "\<not> (creator_matches src i \<or> assignee_matches src i \<or> reporter_matches src i) \<Longrightarrow>
   payload_fields (combined_request src tgt i) = [] \<and> apply_payload (combined_request src tgt i) i = i"
  by (simp add: combined_request_def apply_payload_def)

text \<open>With equal ids the combined request writes back the ids the issue has.\<close>

lemma set_field_same:
  "creator_matches u i \<Longrightarrow> set_field (''creator'', \<lparr>accountId = u\<rparr>) i = i"
  "assignee_matches u i \<Longrightarrow> set_field (''assignee'', \<lparr>accountId = u\<rparr>) i = i"
  "reporter_matches u i \<Longrightarrow> set_field (''reporter'', \<lparr>accountId = u\<rparr>) i = i"
  by (cases i; cases "issue_fields i"; cases "creator (issue_fields i)";
      auto simp: set_field_def creator_matches_def assignee_matches_def reporter_matches_def)+

lemma combined_request_same: "apply_payload (combined_request u u i) i = i"
  by (simp add: combined_request_def apply_payload_def set_field_same)

section \<open>Add-watcher calls of a whole run\<close>

text \<open>
  On the reference tracker with unique issue keys, every add-watcher call of a run of
  \<^verbatim>\<open>copy_watchers\<close> is for an issue that the target does not watch when the call is made.
\<close>

lemma copy_watchers_fresh:
  assumes d: "distinct (map (key \<circ> fst) (tracker_issues t0))"
  shows "fresh_adds
           (add_watcher_calls (trace (snd (copy_watchers n tracker_api src tgt apply_changes t0)))) t0"
proof -
  obtain out st where run: "copy_watchers n tracker_api src tgt apply_changes t0 = (out, st)"
    by (cases "copy_watchers n tracker_api src tgt apply_changes t0")
  from copy_watchers_cases [OF run] have "fresh_adds (add_watcher_calls (trace st)) t0"
  proof (elim disjE exE conjE)
    fix e
    assume "add_watcher_calls (trace st) = []"
    then show ?thesis by simp
  next
    fix st3 out4 st4
    assume inv3: "snapshot_inv st3"
      and k3: "target_user_watching_keys st3 = {}"
      and w3: "world st3 = snd (api_user tracker_api tgt (snd (api_user tracker_api src t0)))"
      and scan1: "iterate_jql_results n tracker_api (watching_query tgt) snapshot_step 0 st3
                    = (out4, st4)"
      and tail: "case out4 of
                 Returned x \<Rightarrow>
                   (\<exists>out5. iterate_jql_results n tracker_api (watching_query src)
                              (copy_step tracker_api apply_changes tgt) 0 st4 = (out5, st)
                          \<and> out = (case out5 of Returned u' \<Rightarrow> Returned PyNone
                                   | Raised e \<Rightarrow> Raised e | OutOfFuel \<Rightarrow> OutOfFuel))
               | Raised e \<Rightarrow> out = Raised e \<and> st = st4
               | OutOfFuel \<Rightarrow> out = OutOfFuel \<and> st = st4"
    from w3 have w3': "world st3 = t0" by (simp add: tracker_api_user)
    from inv3 k3 have y3: "yielded (trace st3) = []" by (simp add: snapshot_inv_def)
    from snapshot_scan_inv [OF inv3, where n = n and api = tracker_api
        and q = "watching_query tgt" and start = 0] scan1
    have a4: "add_watcher_calls (trace st4) = []" by (simp add: snapshot_inv_def)
    note snap = snapshot_scan_tracker [OF scan1 y3 k3]
    show ?thesis
    proof (cases out4)
      case (Returned x)
      with tail obtain out5 where scan2:
        "iterate_jql_results n tracker_api (watching_query src)
           (copy_step tracker_api apply_changes tgt) 0 st4 = (out5, st)"
        by auto
      from snap Returned w3' have w4: "world st4 = t0"
        and k4: "target_user_watching_keys st4 = watched_keys tgt t0"
        by simp_all
      define L where "L = tracker_search (watching_query src) t0"
      have dl: "distinct (map key L)" unfolding L_def by (rule tracker_search_distinct [OF d])
      have inv4: "adding_inv t0 src tgt L (yielded (trace st4)) st4"
        by (simp add: adding_inv_def a4 w4 k4 L_def)
      from copy_scan_adding [OF inv4 dl scan2] show ?thesis by (simp add: adding_inv_def)
    next
      case (Raised e)
      with tail a4 show ?thesis by simp
    next
      case OutOfFuel
      with tail a4 show ?thesis by simp
    qed
  qed simp
  with run show ?thesis by simp
qed

lemma copy_watchers_no_update:
  "update_calls (trace (snd (copy_watchers n api src tgt apply_changes w0))) = []"
proof -
  obtain out st where run: "copy_watchers n api src tgt apply_changes w0 = (out, st)"
    by (cases "copy_watchers n api src tgt apply_changes w0")
  from copy_watchers_run [OF run] have "update_calls (trace st) = []"
    by (simp add: copy_inv_def)
  with run show ?thesis by simp
qed

text \<open>
  Claim C8, amended. For every issue handed to the remap handler's \<^verbatim>\<open>process_issue\<close>, for
  all source and target ids: a request is built exactly when at least one of creator,
  assignee and reporter matches the source id (then, and only then, it is not empty), it
  is sent with \<^verbatim>\<open>apply_changes\<close> and logged without, and an issue with no matching field
  adds nothing to the trace. When the source id differs from the target id a request is
  built exactly when writing it changes the issue, and every single field it holds changes
  the issue: no request that leaves the issue as it is is sent. When the source id equals
  the target id the request of a matching issue is still built, and writing it leaves the
  issue as it is. The watcher-copy handler never sends an update request; on the reference
  tracker with unique issue keys every add-watcher call it makes is for an issue the
  target does not watch at the moment of the call.
\<close>

theorem request_only_when_change_needed:
  "(let st' = remap_process_issue api apply_changes src tgt i st;
        matched = (creator_matches src i \<or> assignee_matches src i \<or> reporter_matches src i);
        req = combined_request src tgt i
    in trace st' =
         trace st @
           (if \<not> matched then []
            else if \<not> apply_changes then [Log (DryRunUpdate (key i) req)]
            else case fst (api_update_issue api (key i) req (world st)) of
                   None \<Rightarrow> [UpdateIssueCall (key i) req None]
                 | Some e \<Rightarrow> [UpdateIssueCall (key i) req (Some e), Log (UpdateFailed (key i) e)])
     \<and> (matched \<longleftrightarrow> payload_fields req \<noteq> [])
     \<and> (src \<noteq> tgt \<longrightarrow>
          (matched \<longleftrightarrow> apply_payload req i \<noteq> i)
        \<and> list_all (\<lambda>f. set_field f i \<noteq> i) (payload_fields req))
     \<and> (src = tgt \<longrightarrow> apply_payload req i = i))
   \<and> update_calls (trace (snd (copy_watchers n api' src tgt apply_changes w0))) = []
   \<and> (distinct (map (key \<circ> fst) (tracker_issues t0)) \<longrightarrow>
        fresh_adds
          (add_watcher_calls (trace (snd (copy_watchers n tracker_api src tgt apply_changes t0))))
          t0)"
proof (intro conjI impI)
  let ?matched = "creator_matches src i \<or> assignee_matches src i \<or> reporter_matches src i"
  let ?req = "combined_request src tgt i"
  have tr: "trace (remap_process_issue api apply_changes src tgt i st) =
         trace st @
           (if \<not> ?matched then []
            else if \<not> apply_changes then [Log (DryRunUpdate (key i) ?req)]
            else case fst (api_update_issue api (key i) ?req (world st)) of
                   None \<Rightarrow> [UpdateIssueCall (key i) ?req None]
                 | Some e \<Rightarrow> [UpdateIssueCall (key i) ?req (Some e), Log (UpdateFailed (key i) e)])"
    by (simp add: remap_process_issue_eq remap_update_issue_trace)
  have ne: "?matched \<longleftrightarrow> payload_fields ?req \<noteq> []"
    using combined_request_nonempty [of src i tgt] combined_request_empty [of src i tgt] by blast
  have ch: "src \<noteq> tgt \<longrightarrow> (?matched \<longleftrightarrow> apply_payload ?req i \<noteq> i)
        \<and> list_all (\<lambda>f. set_field f i \<noteq> i) (payload_fields ?req)"
    using combined_request_changes [of src tgt i] combined_request_empty [of src i tgt]
      combined_request_fields_change [of src tgt i] by blast
  have same: "src = tgt \<longrightarrow> apply_payload ?req i = i"
    using combined_request_same [of tgt i] by auto
  from tr ne ch same
  show "let st' = remap_process_issue api apply_changes src tgt i st;
        matched = (creator_matches src i \<or> assignee_matches src i \<or> reporter_matches src i);
        req = combined_request src tgt i
    in trace st' =
         trace st @
           (if \<not> matched then []
            else if \<not> apply_changes then [Log (DryRunUpdate (key i) req)]
            else case fst (api_update_issue api (key i) req (world st)) of
                   None \<Rightarrow> [UpdateIssueCall (key i) req None]
                 | Some e \<Rightarrow> [UpdateIssueCall (key i) req (Some e), Log (UpdateFailed (key i) e)])
     \<and> (matched \<longleftrightarrow> payload_fields req \<noteq> [])
     \<and> (src \<noteq> tgt \<longrightarrow>
          (matched \<longleftrightarrow> apply_payload req i \<noteq> i)
        \<and> list_all (\<lambda>f. set_field f i \<noteq> i) (payload_fields req))
     \<and> (src = tgt \<longrightarrow> apply_payload req i = i)"
    unfolding Let_def by (intro conjI)
next
  show "update_calls (trace (snd (copy_watchers n api' src tgt apply_changes w0))) = []"
    by (rule copy_watchers_no_update)
next
  assume "distinct (map (key \<circ> fst) (tracker_issues t0))"
  then show "fresh_adds
          (add_watcher_calls (trace (snd (copy_watchers n tracker_api src tgt apply_changes t0))))
          t0"
    by (rule copy_watchers_fresh)
qed

text \<open>With equal ids the request for a matching issue is sent and writes back what is there.\<close>

theorem remap_same_user_counterexample:
  "update_calls (trace (remap_process_issue tracker_api True ''alice'' ''alice''
      (mk_issue ''A'' ''alice'' (Some ''alice'') (Some ''alice''))
      \<lparr>world = office, trace = [], issues_updated = 0\<rparr>)) =
     [(''A'', combined_request ''alice'' ''alice''
               (mk_issue ''A'' ''alice'' (Some ''alice'') (Some ''alice'')), None)]
   \<and> apply_payload
       (combined_request ''alice'' ''alice'' (mk_issue ''A'' ''alice'' (Some ''alice'') (Some ''alice'')))
       (mk_issue ''A'' ''alice'' (Some ''alice'') (Some ''alice''))
     = mk_issue ''A'' ''alice'' (Some ''alice'') (Some ''alice'')
   \<and> payload_fields
       (combined_request ''alice'' ''alice'' (mk_issue ''A'' ''alice'' (Some ''alice'') (Some ''alice'')))
     = [(''creator'', \<lparr>accountId = ''alice''\<rparr>), (''assignee'', \<lparr>accountId = ''alice''\<rparr>),
        (''reporter'', \<lparr>accountId = ''alice''\<rparr>)]"
  by (simp add: remap_process_issue_eq remap_update_issue_trace creator_matches_def
      assignee_matches_def reporter_matches_def combined_request_def mk_issue_def
      tracker_api_def tracker_update_issue_def office_def apply_payload_def set_field_def)

theorem request_only_when_change_needed_witness:
  "creator_matches ''alice'' (mk_issue ''A'' ''alice'' (Some ''alice'') (Some ''alice''))
   \<and> ''alice'' \<noteq> ''bob''
   \<and> trace (remap_process_issue tracker_api True ''alice'' ''bob''
        (mk_issue ''A'' ''alice'' (Some ''alice'') (Some ''alice''))
        \<lparr>world = office, trace = [], issues_updated = 0\<rparr>) =
       [UpdateIssueCall ''A''
          (combined_request ''alice'' ''bob'' (mk_issue ''A'' ''alice'' (Some ''alice'') (Some ''alice'')))
          None]
   \<and> payload_fields
       (combined_request ''alice'' ''bob'' (mk_issue ''A'' ''alice'' (Some ''alice'') (Some ''alice'')))
     \<noteq> []
   \<and> apply_payload
       (combined_request ''alice'' ''bob'' (mk_issue ''A'' ''alice'' (Some ''alice'') (Some ''alice'')))
       (mk_issue ''A'' ''alice'' (Some ''alice'') (Some ''alice''))
     \<noteq> mk_issue ''A'' ''alice'' (Some ''alice'') (Some ''alice'')
   \<and> set_field (''creator'', \<lparr>accountId = ''bob''\<rparr>)
       (mk_issue ''A'' ''alice'' (Some ''alice'') (Some ''alice''))
     \<noteq> mk_issue ''A'' ''alice'' (Some ''alice'') (Some ''alice'')
   \<and> trace (remap_process_issue tracker_api True ''alice'' ''bob''
        (mk_issue ''B'' ''bob'' None None)
        \<lparr>world = office, trace = [], issues_updated = 0\<rparr>) = []
   \<and> apply_payload
       (combined_request ''alice'' ''alice'' (mk_issue ''A'' ''alice'' (Some ''alice'') (Some ''alice'')))
       (mk_issue ''A'' ''alice'' (Some ''alice'') (Some ''alice''))
     = mk_issue ''A'' ''alice'' (Some ''alice'') (Some ''alice'')
   \<and> distinct (map (key \<circ> fst) (tracker_issues office))
   \<and> add_watcher_calls (trace (snd (copy_watchers (Suc 0) tracker_api ''alice'' ''bob'' True office)))
       = [(''A'', ''bob'', None), (''C'', ''bob'', None)]
   \<and> fresh_adds [(''A'', ''bob'', None), (''C'', ''bob'', None)] office
   \<and> update_calls (trace (snd (copy_watchers (Suc 0) tracker_api ''alice'' ''bob'' True office)))
       = []"
proof -
  let ?A = "mk_issue ''A'' ''alice'' (Some ''alice'') (Some ''alice'')"
  let ?B = "mk_issue ''B'' ''bob'' None None"
  let ?st = "\<lparr>world = office, trace = [], issues_updated = 0\<rparr>"
  note instA = request_only_when_change_needed [where api = tracker_api and apply_changes = True
      and src = "''alice''" and tgt = "''bob''" and i = ?A and st = ?st and n = "Suc 0"
      and api' = tracker_api and ?w0.0 = office and ?t0.0 = office]
  note instB = request_only_when_change_needed [where api = tracker_api and apply_changes = True
      and src = "''alice''" and tgt = "''bob''" and i = ?B and st = ?st and n = "Suc 0"
      and api' = tracker_api and ?w0.0 = office and ?t0.0 = office]
  note instS = request_only_when_change_needed [where api = tracker_api and apply_changes = True
      and src = "''alice''" and tgt = "''alice''" and i = ?A and st = ?st and n = "Suc 0"
      and api' = tracker_api and ?w0.0 = office and ?t0.0 = office]
  have m: "creator_matches ''alice'' ?A"
    by (simp add: creator_matches_def mk_issue_def)
  have nm: "\<not> (creator_matches ''alice'' ?B \<or> assignee_matches ''alice'' ?B
               \<or> reporter_matches ''alice'' ?B)"
    by (simp add: creator_matches_def assignee_matches_def reporter_matches_def mk_issue_def)
  have ne: "''alice'' \<noteq> ''bob''" by simp
  have k: "key ?A = ''A''" by (simp add: mk_issue_def)
  have ok: "fst (api_update_issue tracker_api ''A'' (combined_request ''alice'' ''bob'' ?A) office)
            = None"
    by (simp add: tracker_api_def tracker_update_issue_def office_def)
  have d: "distinct (map (key \<circ> fst) (tracker_issues office))"
    by (simp add: office_def mk_issue_def)
  have calls: "add_watcher_calls
        (trace (snd (copy_watchers (Suc 0) tracker_api ''alice'' ''bob'' True office)))
       = [(''A'', ''bob'', None), (''C'', ''bob'', None)]"
    by (simp add: tracker_defs handler_defs)
  from instA m ne ok k
  have a1: "trace (remap_process_issue tracker_api True ''alice'' ''bob'' ?A ?st) =
       [UpdateIssueCall ''A'' (combined_request ''alice'' ''bob'' ?A) None]"
    and a2: "payload_fields (combined_request ''alice'' ''bob'' ?A) \<noteq> []"
    and a3: "apply_payload (combined_request ''alice'' ''bob'' ?A) ?A \<noteq> ?A"
    and a4: "list_all (\<lambda>f. set_field f ?A \<noteq> ?A)
               (payload_fields (combined_request ''alice'' ''bob'' ?A))"
    by (simp_all add: Let_def)
  from a4 m have a5: "set_field (''creator'', \<lparr>accountId = ''bob''\<rparr>) ?A \<noteq> ?A"
    by (simp add: combined_request_def)
  from instB nm
  have b: "trace (remap_process_issue tracker_api True ''alice'' ''bob'' ?B ?st) = []"
    by (simp add: Let_def)
  from instS have s: "apply_payload (combined_request ''alice'' ''alice'' ?A) ?A = ?A"
    by (simp add: Let_def)
  from instA d calls
  have f: "fresh_adds [(''A'', ''bob'', None), (''C'', ''bob'', None)] office"
    and u: "update_calls (trace (snd (copy_watchers (Suc 0) tracker_api ''alice'' ''bob'' True office)))
       = []"
    by simp_all
  show ?thesis
    by (intro conjI) (rule m ne a1 a2 a3 a5 b s d calls f u)+
qed

section \<open>Running the watcher copy handler twice\<close>



















end
